theory Spec2Isabelle
  imports Main
begin

section \<open>Text primitives of the legacy data\<close>

text \<open>
  Legacy text is modelled as \<^typ>\<open>string\<close>: a list of 8-bit characters, read as ASCII.
  The Python string methods used by the migration scripts are defined on that
  alphabet, by code point: \<open>str.isspace\<close> holds for the ASCII whitespace characters
  (9 to 13 and 28 to 32), the digits are 48 to 57, the case transforms act on the letters
  \<open>A-Z\<close> (65 to 90) and \<open>a-z\<close> (97 to 122) and leave every other character as it is.
  A nullable legacy column is a \<^typ>\<open>string option\<close>, \<open>None\<close> standing for NULL /
  Python's \<open>None\<close>.
\<close>

definition isspace_chr :: "char \<Rightarrow> bool" where
  "isspace_chr c = (let n = (of_char c :: nat) in (9 \<le> n \<and> n \<le> 13) \<or> (28 \<le> n \<and> n \<le> 32))"

definition isupper_chr :: "char \<Rightarrow> bool" where
  "isupper_chr c = (let n = (of_char c :: nat) in 65 \<le> n \<and> n \<le> 90)"

definition islower_chr :: "char \<Rightarrow> bool" where
  "islower_chr c = (let n = (of_char c :: nat) in 97 \<le> n \<and> n \<le> 122)"

definition isdigit_chr :: "char \<Rightarrow> bool" where
  "isdigit_chr c = (let n = (of_char c :: nat) in 48 \<le> n \<and> n \<le> 57)"

definition iscased_chr :: "char \<Rightarrow> bool" where
  "iscased_chr c = (isupper_chr c \<or> islower_chr c)"

text \<open>\<open>\w\<close> of the \<open>re\<close> module: letters, digits and the underscore.\<close>

definition isword_chr :: "char \<Rightarrow> bool" where
  "isword_chr c = (iscased_chr c \<or> isdigit_chr c \<or> c = CHR ''_'')"

text \<open>A lower-case letter is 32 code points above its upper-case letter.\<close>

definition lower_chr :: "char \<Rightarrow> char" where
  "lower_chr c = (if isupper_chr c then char_of ((of_char c :: nat) + 32) else c)"

definition upper_chr :: "char \<Rightarrow> char" where
  "upper_chr c = (if islower_chr c then char_of ((of_char c :: nat) - 32) else c)"

text \<open>\<open>str.lower()\<close>, \<open>str.upper()\<close> and \<open>str.strip()\<close> (no argument: whitespace).\<close>

definition py_lower :: "string \<Rightarrow> string" where
  "py_lower s = map lower_chr s"

definition py_upper :: "string \<Rightarrow> string" where
  "py_upper s = map upper_chr s"

definition py_strip :: "string \<Rightarrow> string" where
  "py_strip s = rev (dropWhile isspace_chr (rev (dropWhile isspace_chr s)))"

text \<open>\<open>str.capitalize()\<close>: the first character upper-cased, the rest lower-cased.\<close>

fun py_capitalize :: "string \<Rightarrow> string" where
  "py_capitalize [] = []"
| "py_capitalize (c # cs) = upper_chr c # py_lower cs"

text \<open>
  \<open>str.title()\<close>: a cased character is upper-cased when the character before it is
  not cased (or there is none) and lower-cased otherwise; uncased characters are kept.
  The flag is Python's \<open>previous_is_cased\<close>.
\<close>

fun title_from :: "bool \<Rightarrow> string \<Rightarrow> string" where
  "title_from previous_is_cased [] = []"
| "title_from previous_is_cased (c # cs) =
     (if iscased_chr c
      then (if previous_is_cased then lower_chr c else upper_chr c) # title_from True cs
      else c # title_from False cs)"

definition py_title :: "string \<Rightarrow> string" where
  "py_title s = title_from False s"

text \<open>Python truthiness of an optional string: \<open>not s\<close> holds for \<open>None\<close> and for \<open>''\<close>.\<close>

definition falsy_str :: "string option \<Rightarrow> bool" where
  "falsy_str s = (case s of None \<Rightarrow> True | Some t \<Rightarrow> t = [])"

section \<open>Field normalizers of \<open>scripts/migrate_data.py\<close>\<close>

datatype OrderStatusEnum = PENDING | PROCESSING | SHIPPED | DELIVERED | CANCELLED | REFUNDED

text \<open>
  The logger calls of the normalizers have no effect on what they return and are left
  out; after the guard \<open>if not x: return ...\<close> the argument is a non-empty string.
\<close>

definition map_order_status :: "string option \<Rightarrow> OrderStatusEnum" where
  "map_order_status old_status =
     (case old_status of
        None \<Rightarrow> PENDING
      | Some t \<Rightarrow>
         if t = [] then PENDING
         else let s = py_strip (py_lower t) in
           if s \<in> set [''pending'', ''processing''] then PENDING
           else if s \<in> set [''shipped'', ''enviado''] then SHIPPED
           else if s \<in> set [''delivered'', ''entregado''] then DELIVERED
           else if s \<in> set [''cancelled'', ''cancelado''] then CANCELLED
           else PENDING)"

definition normalize_category_name :: "string option \<Rightarrow> string" where
  "normalize_category_name name =
     (case name of
        None \<Rightarrow> ''Unknown''
      | Some t \<Rightarrow> if t = [] then ''Unknown'' else py_capitalize (py_strip t))"

subsection \<open>Prices\<close>

text \<open>
  A \<open>decimal.Decimal\<close> is its sign, coefficient and exponent (\<open>Decimal.as_tuple()\<close>): the
  number \<open>(-1)^sign * coefficient * 10^exponent\<close>. \<open>Decimal(str)\<close> is modelled on plain
  decimal literals, an optional sign, digits and at most one point; every other text
  raises \<open>InvalidOperation\<close>. (Exponents, \<open>NaN\<close> and \<open>Infinity\<close> need letters, which
  the price parser has removed before it converts.)
\<close>

datatype py_error =
  AttributeError | IndexError | NameError | TypeError | InvalidOperation | IntegrityError
  | DataError

record decimal =
  negative :: bool
  coefficient :: nat
  exponent :: int

definition digit_val :: "char \<Rightarrow> nat" where
  "digit_val c = (case map_of (zip ''0123456789'' [0, 1, 2, 3, 4, 5, 6, 7, 8, 9]) c of
                    Some d \<Rightarrow> d | None \<Rightarrow> 0)"

definition nat_of_digits :: "string \<Rightarrow> nat" where
  "nat_of_digits ds = foldl (\<lambda>n c. 10 * n + digit_val c) 0 ds"

definition Decimal_of_str :: "string \<Rightarrow> py_error + decimal" where
  "Decimal_of_str s =
     (let neg = (case s of c # _ \<Rightarrow> c = CHR ''-'' | [] \<Rightarrow> False);
          signed = (case s of c # _ \<Rightarrow> c = CHR ''-'' \<or> c = CHR ''+'' | [] \<Rightarrow> False);
          body = (if signed then tl s else s);
          intpart = takeWhile (\<lambda>c. c \<noteq> CHR ''.'') body;
          rest = dropWhile (\<lambda>c. c \<noteq> CHR ''.'') body;
          fracpart = (case rest of [] \<Rightarrow> [] | _ # f \<Rightarrow> f)
      in if list_all isdigit_chr (intpart @ fracpart) \<and> intpart @ fracpart \<noteq> []
         then Inr \<lparr>negative = neg, coefficient = nat_of_digits (intpart @ fracpart),
                   exponent = - int (length fracpart)\<rparr>
         else Inl InvalidOperation)"

text \<open>
  \<open>str.split(sep)\<close> for a one-character separator: one more part than there are
  separators, so the result is never empty and \<open>s.split(sep)[0]\<close> is its head.
\<close>

fun py_split :: "char \<Rightarrow> string \<Rightarrow> string list" where
  "py_split sep [] = [[]]"
| "py_split sep (c # cs) =
     (if c = sep then [] # py_split sep cs
      else (case py_split sep cs of p # ps \<Rightarrow> (c # p) # ps | [] \<Rightarrow> [[c]]))"

text \<open>\<open>re.sub(r"[^0-9.-]", "", price_str)\<close>: every digit, point and minus sign is kept.\<close>

definition clean_price :: "string \<Rightarrow> string" where
  "clean_price price_str =
     filter (\<lambda>c. isdigit_chr c \<or> c = CHR ''.'' \<or> c = CHR ''-'') price_str"

definition extract_price_decimal :: "string option \<Rightarrow> decimal option" where
  "extract_price_decimal price_str =
     (case price_str of
        None \<Rightarrow> None
      | Some p \<Rightarrow>
         if p = [] then None
         else let cleaned_price_str = clean_price p in
           if cleaned_price_str = [] then None
           else let numeric_part = hd (py_split CHR ''-'' cleaned_price_str) in
             (case Decimal_of_str numeric_part of
                Inr d \<Rightarrow> Some d
              | Inl e \<Rightarrow> None))"

subsection \<open>SKU of a migrated product\<close>

text \<open>
  \<open>f"SKU-{old_product.id:05d}-{random.randint(100, 999)}"\<close>. The draw of
  \<open>random.randint\<close> is an input of the model: any integer from 100 to 999.
\<close>

definition digit_chr :: "nat \<Rightarrow> char" where
  "digit_chr n = ''0123456789'' ! (n mod 10)"

fun str_nat :: "nat \<Rightarrow> string" where
  "str_nat n = (if n < 10 then [digit_chr n] else str_nat (n div 10) @ [digit_chr n])"

declare str_nat.simps [simp del]

definition zero_pad :: "nat \<Rightarrow> string \<Rightarrow> string" where
  "zero_pad w s = replicate (w - length s) CHR ''0'' @ s"

definition format_05d :: "int \<Rightarrow> string" where
  "format_05d i = (if i < 0 then CHR ''-'' # zero_pad 4 (str_nat (nat (- i)))
                   else zero_pad 5 (str_nat (nat i)))"

definition str_int :: "int \<Rightarrow> string" where
  "str_int i = (if i < 0 then CHR ''-'' # str_nat (nat (- i)) else str_nat (nat i))"

definition randint_100_999 :: "int set" where
  "randint_100_999 = {100..999}"

definition generate_sku :: "int \<Rightarrow> int \<Rightarrow> string" where
  "generate_sku old_product_id draw = ''SKU-'' @ format_05d old_product_id @ ''-'' @ str_int draw"

subsection \<open>Dates\<close>

text \<open>
  \<open>datetime.strptime\<close> is a parameter: \<open>strptime s fmt\<close> is \<open>None\<close> where the library
  raises \<open>ValueError\<close> (the text does not match the format), which is the exception the
  loop of \<open>parse_datetime_flexible\<close> catches before it tries the next format.
\<close>

fun try_formats :: "(string \<Rightarrow> string \<Rightarrow> 'dt option) \<Rightarrow> string \<Rightarrow> string list \<Rightarrow> 'dt option" where
  "try_formats strptime date_str [] = None"
| "try_formats strptime date_str (fmt # formats) =
     (case strptime (py_strip date_str) fmt of
        Some d \<Rightarrow> Some d
      | None \<Rightarrow> try_formats strptime date_str formats)"

definition parse_datetime_flexible ::
  "(string \<Rightarrow> string \<Rightarrow> 'dt option) \<Rightarrow> string option \<Rightarrow> string list \<Rightarrow> 'dt option" where
  "parse_datetime_flexible strptime date_str formats =
     (case date_str of
        None \<Rightarrow> None
      | Some d \<Rightarrow> if d = [] then None else try_formats strptime d formats)"

subsection \<open>Addresses\<close>

text \<open>
  Indexing a list raises \<open>IndexError\<close> out of range; a negative index counts from the end.
\<close>

definition py_getitem :: "'a list \<Rightarrow> int \<Rightarrow> py_error + 'a" where
  "py_getitem xs i =
     (if 0 \<le> i \<and> i < int (length xs) then Inr (xs ! nat i)
      else if i < 0 \<and> - i \<le> int (length xs) then Inr (xs ! nat (int (length xs) + i))
      else Inl IndexError)"

text \<open>
  \<open>\b\<close> of the \<open>re\<close> module at a position: exactly one of the characters before and
  after it is a word character. The scan keeps whether the character before the position
  is one (\<open>False\<close> at the start of the text).
\<close>

definition word_boundary :: "bool \<Rightarrow> string \<Rightarrow> bool" where
  "word_boundary prev_is_word rest =
     (prev_is_word \<noteq> (case rest of [] \<Rightarrow> False | c # _ \<Rightarrow> isword_chr c))"

text \<open>
  \<open>re.search(r'\b\d{5}(?:-\d{4})?\b', text)\<close>: the leftmost match, and at one position
  the longer alternative (with the \<open>-dddd\<close> extension) before the shorter one. The
  result is \<open>group(0)\<close>, \<open>None\<close> when there is no match.
\<close>

definition zip_at :: "bool \<Rightarrow> string \<Rightarrow> string option" where
  "zip_at prev_is_word rest =
     (let d5 = take 5 rest; after5 = drop 5 rest; ext = take 5 after5
      in if word_boundary prev_is_word rest \<and> length d5 = 5 \<and> list_all isdigit_chr d5
         then (if length ext = 5 \<and> hd ext = CHR ''-'' \<and> list_all isdigit_chr (tl ext)
                  \<and> word_boundary True (drop 5 after5)
               then Some (d5 @ ext)
               else if word_boundary True after5 then Some d5 else None)
         else None)"

fun zip_search_from :: "bool \<Rightarrow> string \<Rightarrow> string option" where
  "zip_search_from prev_is_word [] = None"
| "zip_search_from prev_is_word (c # cs) =
     (case zip_at prev_is_word (c # cs) of
        Some m \<Rightarrow> Some m
      | None \<Rightarrow> zip_search_from (isword_chr c) cs)"

definition zip_search :: "string \<Rightarrow> string option" where
  "zip_search text = zip_search_from False text"

text \<open>\<open>re.search(r'\b([A-Z]{2})\b', text)\<close>; the result is \<open>group(1)\<close>.\<close>

definition state_at :: "bool \<Rightarrow> string \<Rightarrow> string option" where
  "state_at prev_is_word rest =
     (let l2 = take 2 rest
      in if word_boundary prev_is_word rest \<and> length l2 = 2 \<and> list_all isupper_chr l2
            \<and> word_boundary True (drop 2 rest)
         then Some l2 else None)"

fun state_search_from :: "bool \<Rightarrow> string \<Rightarrow> string option" where
  "state_search_from prev_is_word [] = None"
| "state_search_from prev_is_word (c # cs) =
     (case state_at prev_is_word (c # cs) of
        Some m \<Rightarrow> Some m
      | None \<Rightarrow> state_search_from (isword_chr c) cs)"

definition state_search :: "string \<Rightarrow> string option" where
  "state_search text = state_search_from False text"

text \<open>
  \<open>text.replace(old, "")\<close>: every occurrence of \<open>old\<close> is removed, scanning from the
  left without overlap. \<open>skip\<close> counts the characters of a found occurrence still to be
  dropped. An empty \<open>old\<close> removes nothing.
\<close>

fun remove_from :: "string \<Rightarrow> nat \<Rightarrow> string \<Rightarrow> string" where
  "remove_from old skip [] = []"
| "remove_from old skip (c # cs) =
     (if 0 < skip then remove_from old (skip - 1) cs
      else if old \<noteq> [] \<and> take (length old) (c # cs) = old
           then remove_from old (length old - 1) cs
      else c # remove_from old 0 cs)"

definition py_remove :: "string \<Rightarrow> string \<Rightarrow> string" where
  "py_remove old text = remove_from old 0 text"

text \<open>The dictionary \<open>parsed\<close>: only \<open>state\<close> is ever set to \<open>None\<close>.\<close>

record address_parts =
  street :: string
  city :: string
  state :: "string option"
  zip_code :: string
  country :: string

definition parsed_init :: address_parts where
  "parsed_init = \<lparr>street = ''N/A'', city = ''N/A'', state = Some ''N/A'',
                   zip_code = ''N/A'', country = ''N/A''\<rparr>"

text \<open>
  The block under \<open>if len(parts) > 1\<close>. It also binds the local \<open>zip_match\<close>: the second
  component is \<open>None\<close> while that name is unbound and \<open>Some m\<close> once it holds the match
  \<open>m\<close> (itself \<open>None\<close> when the search found nothing).
\<close>

definition city_state_zip ::
  "string list \<Rightarrow> address_parts \<Rightarrow> py_error + (address_parts \<times> string option option)" where
  "city_state_zip parts parsed =
     (if length parts > 1 then
        (case py_getitem parts (if length parts > 2 then - 2 else - 1) of
           Inl e \<Rightarrow> Inl e
         | Inr city_state_zip_candidate \<Rightarrow>
            (case zip_search city_state_zip_candidate of
               Some z \<Rightarrow>
                 let city_state_candidate = py_strip (py_remove z city_state_zip_candidate)
                 in (case state_search city_state_candidate of
                       Some st \<Rightarrow>
                         Inr (parsed\<lparr>zip_code := z, state := Some st,
                                city := py_strip (py_remove '','' (py_remove st city_state_candidate))\<rparr>,
                              Some (Some z))
                     | None \<Rightarrow>
                         Inr (parsed\<lparr>zip_code := z,
                                city := py_strip (py_remove '','' city_state_candidate)\<rparr>,
                              Some (Some z)))
             | None \<Rightarrow>
                 Inr (parsed\<lparr>city := py_strip (py_remove '','' city_state_zip_candidate)\<rparr>,
                      Some None)))
      else Inr (parsed, None))"

text \<open>
  \<open>parts[-1] if len(parts) > 1 and not zip_match else "USA"\<close>: \<open>and\<close> evaluates
  \<open>zip_match\<close> only when there is more than one part; reading the unbound name would
  raise \<open>NameError\<close>.
\<close>

definition country_of :: "string list \<Rightarrow> string option option \<Rightarrow> py_error + string" where
  "country_of parts zip_match =
     (if length parts > 1 then
        (case zip_match of
           None \<Rightarrow> Inl NameError
         | Some None \<Rightarrow> py_getitem parts (- 1)
         | Some (Some z) \<Rightarrow> Inr ''USA'')
      else Inr ''USA'')"

text \<open>The clean-up loop over the five keys.\<close>

definition clean_field :: "string \<Rightarrow> string" where
  "clean_field v = (if v = [] \<or> length v > 250 then ''N/A'' else v)"

definition clean_state :: "string option \<Rightarrow> string option" where
  "clean_state v = (case v of None \<Rightarrow> None
                    | Some t \<Rightarrow> if t = [] \<or> length t > 250 then None else Some t)"

definition final_cleanup :: "address_parts \<Rightarrow> address_parts" where
  "final_cleanup parsed =
     \<lparr>street = clean_field (street parsed), city = clean_field (city parsed),
      state = clean_state (state parsed), zip_code = clean_field (zip_code parsed),
      country = clean_field (country parsed)\<rparr>"

definition truncate_fields :: "address_parts \<Rightarrow> address_parts" where
  "truncate_fields parsed =
     \<lparr>street = take 254 (street parsed), city = take 99 (city parsed),
      state = (case state parsed of None \<Rightarrow> None
               | Some t \<Rightarrow> if t = [] then None else Some (take 99 t)),
      zip_code = take 19 (zip_code parsed), country = take 99 (country parsed)\<rparr>"

definition parse_address :: "string option \<Rightarrow> py_error + address_parts" where
  "parse_address address_combined =
     (case address_combined of
        None \<Rightarrow> Inl AttributeError
      | Some a \<Rightarrow>
         let parts = map py_strip (py_split CHR '','' a)
         in if a = [] then Inr parsed_init
            else
              (case (if length parts > 0 then py_getitem parts 0 else Inr ''N/A'') of
                 Inl e \<Rightarrow> Inl e
               | Inr st \<Rightarrow>
                  (case city_state_zip parts (parsed_init\<lparr>street := st\<rparr>) of
                     Inl e \<Rightarrow> Inl e
                   | Inr (parsed, zip_match) \<Rightarrow>
                      (case country_of parts zip_match of
                         Inl e \<Rightarrow> Inl e
                       | Inr c \<Rightarrow>
                          let cleaned = final_cleanup (parsed\<lparr>country := c\<rparr>)
                          in (if city cleaned = ''N/A'' \<and> length parts > 1
                              then (case py_getitem parts 1 of
                                      Inl e \<Rightarrow> Inl e
                                    | Inr p1 \<Rightarrow> Inr (truncate_fields (cleaned\<lparr>city := p1\<rparr>)))
                              else Inr (truncate_fields cleaned))))))"

section \<open>Transformations of \<open>scripts/migrate_with_pandas.py\<close>\<close>

text \<open>
  The columnar variant applies its transformations to whole columns; a column is a list
  of optional strings (a missing value is \<open>NaN\<close>/\<open>None\<close>), and the \<open>.str\<close> accessors,
  \<open>Series.map\<close> and \<open>fillna\<close> act on each element on its own, so the element function is
  what is modelled.
\<close>

definition normalize_category_name_pd1 :: "string option \<Rightarrow> string" where
  "normalize_category_name_pd1 v =
     (case v of None \<Rightarrow> ''Unknown Category'' | Some s \<Rightarrow> py_title (py_strip s))"

definition normalize_category_name_pd :: "string option list \<Rightarrow> string list" where
  "normalize_category_name_pd series = map normalize_category_name_pd1 series"



section \<open>Legacy and target stores\<close>

subsection \<open>Legacy rows (\<open>models_old/old_models.py\<close>)\<close>

text \<open>A nullable column is an option; \<open>username\<close> and \<open>product_name\<close> are \<open>NOT NULL\<close>.\<close>

record OldUser =
  ou_id :: int
  ou_username :: string
  ou_email :: "string option"
  ou_full_name :: "string option"
  ou_registration_date_str :: "string option"
  ou_address_combined :: "string option"
  ou_phone_number_str :: "string option"

record OldProduct =
  op_id :: int
  op_product_name :: string
  op_description :: "string option"
  op_price_str :: "string option"
  op_category_name_redundant :: "string option"
  op_created_at_str :: "string option"

record OldOrder =
  oo_id :: int
  oo_user_identifier_text :: "string option"
  oo_order_date_str :: "string option"
  oo_status_text :: "string option"
  oo_product_name_redundant :: "string option"
  oo_quantity :: "int option"
  oo_unit_price_str_redundant :: "string option"
  oo_total_order_amount_str :: "string option"

record legacy_db =
  old_users :: "OldUser list"
  old_products :: "OldProduct list"
  old_orders :: "OldOrder list"

subsection \<open>Target rows (\<open>models_new\<close>)\<close>

text \<open>
  A point in time is an integer (seconds). A row record is also the ORM object before
  it is flushed: its identifier is then the placeholder 0 and is assigned by the
  insert; a nullable attribute of the object is an option, and the \<open>NOT NULL\<close>
  constraint of its column is checked by the insert.
\<close>

type_synonym datetime = int

record User =
  u_id :: int
  u_username :: string
  u_email :: "string option"
  u_full_name :: "string option"
  u_hashed_password :: string
  u_is_active :: bool
  u_is_superuser :: bool
  u_registration_date :: datetime
  u_phone_number :: "string option"

record Address =
  a_id :: int
  a_user_id :: int
  a_street :: string
  a_city :: string
  a_state :: "string option"
  a_zip_code :: string
  a_country :: string
  a_is_default_shipping :: bool
  a_is_default_billing :: bool

record ProductCategory =
  c_id :: int
  c_name :: string
  c_description :: "string option"

record Product =
  p_id :: int
  p_name :: string
  p_description :: "string option"
  p_price :: decimal
  p_sku :: string
  p_stock_quantity :: int
  p_category_id :: int
  p_created_at :: datetime
  p_updated_at :: datetime

record Order =
  o_id :: int
  o_user_id :: int
  o_order_date :: datetime
  o_status :: OrderStatusEnum
  o_shipping_address_id :: int
  o_billing_address_id :: int

record OrderItem =
  i_id :: int
  i_order_id :: int
  i_product_id :: int
  i_quantity :: int
  i_unit_price_at_purchase :: decimal

record tables =
  users :: "User list"
  addresses :: "Address list"
  product_categories :: "ProductCategory list"
  products :: "Product list"
  orders :: "Order list"
  order_items :: "OrderItem list"

definition empty_tables :: tables where
  "empty_tables = \<lparr>users = [], addresses = [], product_categories = [], products = [],
                     orders = [], order_items = []\<rparr>"

subsection \<open>The SQLAlchemy session on the target store\<close>

text \<open>
  The session is created with \<open>autoflush=False\<close>. Its state is
  \<^item> \<open>committed\<close>: the rows of the target store that are committed;
  \<^item> \<open>working\<close>: the rows as the open transaction sees them, the committed rows and the
    rows inserted by a flush since the last commit; queries read them;
  \<^item> \<open>new_addresses\<close>, \<open>new_items\<close>: objects given to \<open>add\<close> and not flushed yet (the
    scripts add an \<open>Address\<close> and an \<open>OrderItem\<close> without flushing);
  \<^item> one sequence of identifiers per table; a sequence is not transactional, so a
    rollback does not give identifiers back.

  The constraints checked by an insert are those of \<open>models_new\<close> that the migrated data
  can violate: \<open>UNIQUE\<close> (username, email, category name, SKU), \<open>NOT NULL\<close> (email) and
  the foreign keys. A violation raises \<open>IntegrityError\<close>. The two price columns are
  \<open>Numeric(10, 2)\<close>: the store rounds the value to two decimals, half away from zero, and
  rejects it with \<open>DataError\<close> when the rounded value has more than eight digits before
  the point, that is when the absolute value is at least \<open>10^8 - 0.005\<close>; the value is
  converted before any constraint is checked. A row keeps the price as it was sent
  (the properties below do not read a stored price). Lengths of the text columns are
  not modelled.
\<close>

record session =
  committed :: tables
  working :: tables
  new_addresses :: "Address list"
  new_items :: "OrderItem list"
  seq_users :: int
  seq_addresses :: int
  seq_product_categories :: int
  seq_products :: int
  seq_orders :: int
  seq_order_items :: int

definition fresh_session :: session where
  "fresh_session = \<lparr>committed = empty_tables, working = empty_tables,
       new_addresses = [], new_items = [],
       seq_users = 1, seq_addresses = 1, seq_product_categories = 1, seq_products = 1,
       seq_orders = 1, seq_order_items = 1\<rparr>"

definition has_id :: "('r \<Rightarrow> int) \<Rightarrow> 'r list \<Rightarrow> int \<Rightarrow> bool" where
  "has_id key rows i = (i \<in> set (map key rows))"

text \<open>Overflow of a \<open>Numeric(10, 2)\<close> column, in thousandths.\<close>

definition numeric_10_2_overflow :: "decimal \<Rightarrow> bool" where
  "numeric_10_2_overflow d =
     (if 0 \<le> exponent d + 3
      then 10 ^ 11 - 5 \<le> int (coefficient d) * 10 ^ nat (exponent d + 3)
      else (10 ^ 11 - 5) * 10 ^ nat (- (exponent d + 3)) \<le> int (coefficient d))"

text \<open>
  \<open>INSERT\<close> of one row. An accepted row takes the next identifier of its table. A
  rejected insert raises; the model returns the error alone and draws no identifier
  for it (the store may skip one: only which identifiers are equal matters below, not
  their values).
\<close>

definition insert_user :: "session \<Rightarrow> User \<Rightarrow> py_error + (session \<times> User)" where
  "insert_user s u =
     (let row = u\<lparr>u_id := seq_users s\<rparr>; s1 = s\<lparr>seq_users := seq_users s + 1\<rparr>;
          w = working s
      in if u_email u = None
            \<or> u_username u \<in> set (map u_username (users w))
            \<or> u_email u \<in> set (map u_email (users w))
         then Inl IntegrityError
         else Inr (s1\<lparr>working := w\<lparr>users := users w @ [row]\<rparr>\<rparr>, row))"

definition insert_address :: "session \<Rightarrow> Address \<Rightarrow> py_error + session" where
  "insert_address s a =
     (let row = a\<lparr>a_id := seq_addresses s\<rparr>; s1 = s\<lparr>seq_addresses := seq_addresses s + 1\<rparr>;
          w = working s
      in if \<not> has_id u_id (users w) (a_user_id a) then Inl IntegrityError
         else Inr (s1\<lparr>working := w\<lparr>addresses := addresses w @ [row]\<rparr>\<rparr>))"

definition insert_category :: "session \<Rightarrow> ProductCategory \<Rightarrow> py_error + (session \<times> ProductCategory)" where
  "insert_category s c =
     (let row = c\<lparr>c_id := seq_product_categories s\<rparr>;
          s1 = s\<lparr>seq_product_categories := seq_product_categories s + 1\<rparr>;
          w = working s
      in if c_name c \<in> set (map c_name (product_categories w)) then Inl IntegrityError
         else Inr (s1\<lparr>working := w\<lparr>product_categories := product_categories w @ [row]\<rparr>\<rparr>, row))"

definition insert_product :: "session \<Rightarrow> Product \<Rightarrow> py_error + (session \<times> Product)" where
  "insert_product s p =
     (let row = p\<lparr>p_id := seq_products s\<rparr>; s1 = s\<lparr>seq_products := seq_products s + 1\<rparr>;
          w = working s
      in if numeric_10_2_overflow (p_price p) then Inl DataError
         else if p_sku p \<in> set (map p_sku (products w))
            \<or> \<not> has_id c_id (product_categories w) (p_category_id p)
         then Inl IntegrityError
         else Inr (s1\<lparr>working := w\<lparr>products := products w @ [row]\<rparr>\<rparr>, row))"

definition insert_order :: "session \<Rightarrow> Order \<Rightarrow> py_error + (session \<times> Order)" where
  "insert_order s ord =
     (let row = ord\<lparr>o_id := seq_orders s\<rparr>; s1 = s\<lparr>seq_orders := seq_orders s + 1\<rparr>;
          w = working s
      in if \<not> has_id u_id (users w) (o_user_id ord)
            \<or> \<not> has_id a_id (addresses w) (o_shipping_address_id ord)
            \<or> \<not> has_id a_id (addresses w) (o_billing_address_id ord)
         then Inl IntegrityError
         else Inr (s1\<lparr>working := w\<lparr>orders := orders w @ [row]\<rparr>\<rparr>, row))"

definition insert_item :: "session \<Rightarrow> OrderItem \<Rightarrow> py_error + session" where
  "insert_item s it =
     (let row = it\<lparr>i_id := seq_order_items s\<rparr>;
          s1 = s\<lparr>seq_order_items := seq_order_items s + 1\<rparr>;
          w = working s
      in if numeric_10_2_overflow (i_unit_price_at_purchase it) then Inl DataError
         else if \<not> has_id o_id (orders w) (i_order_id it)
            \<or> \<not> has_id p_id (products w) (i_product_id it)
         then Inl IntegrityError
         else Inr (s1\<lparr>working := w\<lparr>order_items := order_items w @ [row]\<rparr>\<rparr>))"

text \<open>
  \<open>session.flush()\<close> sends the objects that were added and not flushed yet, parents
  before children; the first rejected row raises.
\<close>

fun insert_addresses :: "session \<Rightarrow> Address list \<Rightarrow> py_error + session" where
  "insert_addresses s [] = Inr s"
| "insert_addresses s (a # as) =
     (case insert_address s a of Inl e \<Rightarrow> Inl e | Inr s1 \<Rightarrow> insert_addresses s1 as)"

fun insert_items :: "session \<Rightarrow> OrderItem list \<Rightarrow> py_error + session" where
  "insert_items s [] = Inr s"
| "insert_items s (it # its) =
     (case insert_item s it of Inl e \<Rightarrow> Inl e | Inr s1 \<Rightarrow> insert_items s1 its)"

definition flush :: "session \<Rightarrow> py_error + session" where
  "flush s =
     (case insert_addresses s (new_addresses s) of
        Inl e \<Rightarrow> Inl e
      | Inr s1 \<Rightarrow>
         (case insert_items s1 (new_items s) of
            Inl e \<Rightarrow> Inl e
          | Inr s2 \<Rightarrow> Inr (s2\<lparr>new_addresses := [], new_items := []\<rparr>)))"

text \<open>\<open>session.add(x); session.flush()\<close> for the four kinds of object the scripts flush.\<close>

definition add_flush_user :: "session \<Rightarrow> User \<Rightarrow> py_error + (session \<times> User)" where
  "add_flush_user s u =
     (case insert_user s u of
        Inl e \<Rightarrow> Inl e
      | Inr (s1, row) \<Rightarrow> (case flush s1 of Inl e \<Rightarrow> Inl e | Inr s2 \<Rightarrow> Inr (s2, row)))"

definition add_flush_category :: "session \<Rightarrow> ProductCategory \<Rightarrow> py_error + (session \<times> ProductCategory)" where
  "add_flush_category s c =
     (case insert_category s c of
        Inl e \<Rightarrow> Inl e
      | Inr (s1, row) \<Rightarrow> (case flush s1 of Inl e \<Rightarrow> Inl e | Inr s2 \<Rightarrow> Inr (s2, row)))"

definition add_flush_product :: "session \<Rightarrow> Product \<Rightarrow> py_error + (session \<times> Product)" where
  "add_flush_product s p =
     (case insert_product s p of
        Inl e \<Rightarrow> Inl e
      | Inr (s1, row) \<Rightarrow> (case flush s1 of Inl e \<Rightarrow> Inl e | Inr s2 \<Rightarrow> Inr (s2, row)))"

definition add_flush_order :: "session \<Rightarrow> Order \<Rightarrow> py_error + (session \<times> Order)" where
  "add_flush_order s ord =
     (case insert_order s ord of
        Inl e \<Rightarrow> Inl e
      | Inr (s1, row) \<Rightarrow> (case flush s1 of Inl e \<Rightarrow> Inl e | Inr s2 \<Rightarrow> Inr (s2, row)))"

text \<open>\<open>session.add(x)\<close> without a flush.\<close>

definition add_address :: "session \<Rightarrow> Address \<Rightarrow> session" where
  "add_address s a = s\<lparr>new_addresses := new_addresses s @ [a]\<rparr>"

definition add_item :: "session \<Rightarrow> OrderItem \<Rightarrow> session" where
  "add_item s it = s\<lparr>new_items := new_items s @ [it]\<rparr>"

text \<open>
  \<open>session.commit()\<close> flushes and makes the rows of the transaction durable;
  \<open>session.rollback()\<close> discards every row inserted since the last commit and every
  object not flushed yet. \<open>session.expunge(x)\<close> only detaches the Python object \<open>x\<close> from
  the session: it sends nothing to the store, so a row already inserted by a flush stays
  in the open transaction.
\<close>

definition commit :: "session \<Rightarrow> py_error + session" where
  "commit s = (case flush s of Inl e \<Rightarrow> Inl e | Inr s1 \<Rightarrow> Inr (s1\<lparr>committed := working s1\<rparr>))"

definition rollback :: "session \<Rightarrow> session" where
  "rollback s = s\<lparr>working := committed s, new_addresses := [], new_items := []\<rparr>"

definition expunge :: "session \<Rightarrow> 'obj \<Rightarrow> session" where
  "expunge s obj = s"

section \<open>The record-at-a-time migration (\<open>scripts/migrate_data.py\<close>)\<close>

subsection \<open>State of a run\<close>

text \<open>
  A run owns the session on the target store and the four module-level dictionaries,
  which are empty when the process starts. The log holds the messages the stage
  functions write at warning and error level, in order (their info and debug lines,
  the counters that only feed those lines and the warnings written inside the
  normalizers are left out). The clock, \<open>strptime\<close> and the random draws are inputs:
  \<open>sku_draw n\<close> and \<open>stock_draw n\<close> are the draws made while the \<open>n\<close>-th legacy product
  is processed.
\<close>

datatype log_entry =
    CategoryNameEmpty
  | CategoryIntegrityError string
  | CategoryNotRecovered string
  | CategoryError string
  | CommitError
  | RegistrationDateDefaulted int
  | UserIntegrityError int
  | UserNotRecovered int
  | UserError int
  | AddressNotAvailable int
  | PriceInvalid int
  | DefaultCategoryError
  | ProductWithoutCategory int
  | ProductCategoryDefaulted int
  | ProductIntegrityError int
  | ProductNotRecovered int
  | ProductError int
  | OrderUserNotFound int "string option"
  | OrderUserWithoutAddress int int
  | OrderDateDefaulted int
  | OrderProductNotFound int
  | OrderNotMigrated int
  | UnitPriceInvalid int
  | OrderIntegrityError int
  | OrderError int

record migration =
  new_db :: session
  old_category_name_to_new_category_id_map :: "string \<rightharpoonup> int"
  old_user_id_to_new_user_map :: "int \<rightharpoonup> User"
  old_product_id_to_new_product_map :: "int \<rightharpoonup> Product"
  old_product_name_to_new_product_id_map :: "string \<rightharpoonup> int"
  log :: "log_entry list"

definition start_migration :: "session \<Rightarrow> migration" where
  "start_migration s =
     \<lparr>new_db = s, old_category_name_to_new_category_id_map = Map.empty,
      old_user_id_to_new_user_map = Map.empty, old_product_id_to_new_product_map = Map.empty,
      old_product_name_to_new_product_id_map = Map.empty, log = []\<rparr>"

record env =
  strptime :: "string \<Rightarrow> string \<Rightarrow> datetime option"
  now :: datetime
  sku_draw :: "nat \<Rightarrow> int"
  stock_draw :: "nat \<Rightarrow> int"

definition BATCH_SIZE :: nat where
  "BATCH_SIZE = 500"

definition logged :: "migration \<Rightarrow> log_entry \<Rightarrow> migration" where
  "logged m e = m\<lparr>log := log m @ [e]\<rparr>"

text \<open>\<open>try: new_db.commit() except Exception: new_db.rollback(); logger.error(...)\<close>\<close>

definition commit_or_rollback :: "migration \<Rightarrow> migration" where
  "commit_or_rollback m =
     (case commit (new_db m) of
        Inr s \<Rightarrow> m\<lparr>new_db := s\<rparr>
      | Inl e \<Rightarrow> logged (m\<lparr>new_db := rollback (new_db m)\<rparr>) CommitError)"

subsection \<open>Stage 1: product categories\<close>

definition category_description :: "string \<Rightarrow> string" where
  "category_description normalized_name =
     ''Categor'' @ [CHR 0xC3, CHR 0xAD] @ ''a para '' @ normalized_name"

text \<open>The two assignments into the dictionary after a category was found or created.\<close>

definition map_category :: "migration \<Rightarrow> string \<Rightarrow> string \<Rightarrow> int \<Rightarrow> migration" where
  "map_category m old_cat_name normalized_name new_category_id =
     (let m1 = m\<lparr>old_category_name_to_new_category_id_map :=
                   (old_category_name_to_new_category_id_map m)(normalized_name \<mapsto> new_category_id)\<rparr>
      in if old_cat_name \<noteq> normalized_name
         then m1\<lparr>old_category_name_to_new_category_id_map :=
                   (old_category_name_to_new_category_id_map m1)(old_cat_name \<mapsto> new_category_id)\<rparr>
         else m1)"

definition category_by_name :: "session \<Rightarrow> string \<Rightarrow> ProductCategory option" where
  "category_by_name s name = find (\<lambda>c. c_name c = name) (product_categories (working s))"

text \<open>The \<open>try\<close> block of one category with its two handlers.\<close>

definition create_category :: "migration \<Rightarrow> string \<Rightarrow> string \<Rightarrow> migration" where
  "create_category m old_cat_name normalized_name =
     (case category_by_name (new_db m) normalized_name of
        Some existing_category \<Rightarrow> map_category m old_cat_name normalized_name (c_id existing_category)
      | None \<Rightarrow>
         (case add_flush_category (new_db m)
                 \<lparr>c_id = 0, c_name = normalized_name,
                  c_description = Some (category_description normalized_name)\<rparr> of
            Inr (s1, new_category) \<Rightarrow>
              map_category (m\<lparr>new_db := s1\<rparr>) old_cat_name normalized_name (c_id new_category)
          | Inl e \<Rightarrow>
              if e = IntegrityError then
                (let m1 = logged (m\<lparr>new_db := rollback (new_db m)\<rparr>)
                            (CategoryIntegrityError normalized_name)
                 in case category_by_name (new_db m1) normalized_name of
                      Some existing_category \<Rightarrow>
                        map_category m1 old_cat_name normalized_name (c_id existing_category)
                    | None \<Rightarrow> logged m1 (CategoryNotRecovered normalized_name))
              else logged (m\<lparr>new_db := rollback (new_db m)\<rparr>) (CategoryError normalized_name)))"

text \<open>
  One iteration of the loop over the distinct legacy names; the first component is
  \<open>processed_count\<close>. Both \<open>continue\<close> statements leave the iteration before the batch
  commit.
\<close>

definition category_iteration :: "nat \<Rightarrow> migration \<Rightarrow> string option \<Rightarrow> nat \<times> migration" where
  "category_iteration processed_count m old_cat_name =
     (case old_cat_name of
        None \<Rightarrow> (processed_count, logged m CategoryNameEmpty)
      | Some raw \<Rightarrow>
         if raw = [] then (processed_count, logged m CategoryNameEmpty)
         else
           let normalized_name = normalize_category_name (Some raw);
               processed_count = processed_count + 1
           in if normalized_name \<in> dom (old_category_name_to_new_category_id_map m)
              then (processed_count, m)
              else
                let m1 = create_category m raw normalized_name
                in (processed_count,
                    if processed_count mod BATCH_SIZE = 0 then commit_or_rollback m1 else m1))"

fun categories_loop :: "nat \<Rightarrow> migration \<Rightarrow> string option list \<Rightarrow> migration" where
  "categories_loop processed_count m [] = m"
| "categories_loop processed_count m (old_cat_name # rest) =
     (case category_iteration processed_count m old_cat_name of
        (processed_count', m') \<Rightarrow> categories_loop processed_count' m' rest)"

text \<open>
  \<open>old_db.query(OldProduct.category_name_redundant).distinct().all()\<close>: the distinct
  values of the column. SQL leaves their order open; the model takes them in the order
  of their last occurrence, and the stage is also defined on any given list of names.
\<close>

definition distinct_categories :: "legacy_db \<Rightarrow> string option list" where
  "distinct_categories old_db = remdups (map op_category_name_redundant (old_products old_db))"

definition migrate_categories_from :: "string option list \<Rightarrow> migration \<Rightarrow> migration" where
  "migrate_categories_from names m = commit_or_rollback (categories_loop 0 m names)"

definition migrate_product_categories :: "legacy_db \<Rightarrow> migration \<Rightarrow> migration" where
  "migrate_product_categories old_db m = migrate_categories_from (distinct_categories old_db) m"

subsection \<open>Stage 2: users and addresses\<close>

definition reg_date_formats :: "string list" where
  "reg_date_formats = [''%Y-%m-%d %H:%M'', ''%Y-%m-%d %H:%M:%S'', ''%Y-%m-%d'']"

definition user_by_username :: "session \<Rightarrow> string \<Rightarrow> User option" where
  "user_by_username s name = find (\<lambda>u. u_username u = name) (users (working s))"

text \<open>The two \<open>except\<close> clauses of the user loop; the first action of both is the rollback.\<close>

definition user_except :: "py_error \<Rightarrow> migration \<Rightarrow> OldUser \<Rightarrow> migration" where
  "user_except e m old_user =
     (if e = IntegrityError then
        (let m1 = logged (m\<lparr>new_db := rollback (new_db m)\<rparr>) (UserIntegrityError (ou_id old_user))
         in case user_by_username (new_db m1) (ou_username old_user) of
              Some existing_user \<Rightarrow>
                m1\<lparr>old_user_id_to_new_user_map :=
                     (old_user_id_to_new_user_map m1)(ou_id old_user \<mapsto> existing_user)\<rparr>
            | None \<Rightarrow> logged m1 (UserNotRecovered (ou_id old_user)))
      else logged (m\<lparr>new_db := rollback (new_db m)\<rparr>) (UserError (ou_id old_user)))"

text \<open>
  \<open>any(v != "N/A" and v is not None for k, v in parsed_addr.items() if k != 'state')\<close>
\<close>

definition any_available :: "address_parts \<Rightarrow> bool" where
  "any_available parsed_addr =
     (street parsed_addr \<noteq> ''N/A'' \<or> city parsed_addr \<noteq> ''N/A''
      \<or> zip_code parsed_addr \<noteq> ''N/A'' \<or> country parsed_addr \<noteq> ''N/A'')"

definition create_address :: "migration \<Rightarrow> User \<Rightarrow> OldUser \<Rightarrow> py_error + migration" where
  "create_address m new_user old_user =
     (if falsy_str (ou_address_combined old_user) then Inr m
      else
        (case parse_address (ou_address_combined old_user) of
           Inl e \<Rightarrow> Inl e
         | Inr parsed_addr \<Rightarrow>
            if any_available parsed_addr
            then Inr (m\<lparr>new_db := add_address (new_db m)
                        \<lparr>a_id = 0, a_user_id = u_id new_user, a_street = street parsed_addr,
                         a_city = city parsed_addr, a_state = state parsed_addr,
                         a_zip_code = zip_code parsed_addr, a_country = country parsed_addr,
                         a_is_default_shipping = True, a_is_default_billing = True\<rparr>\<rparr>)
            else Inr (logged m (AddressNotAvailable (ou_id old_user)))))"

definition user_iteration :: "env \<Rightarrow> nat \<Rightarrow> migration \<Rightarrow> OldUser \<Rightarrow> migration" where
  "user_iteration env processed_users_count m old_user =
     (let parsed = parse_datetime_flexible (strptime env) (ou_registration_date_str old_user)
                     reg_date_formats;
          registration_date = (case parsed of Some d \<Rightarrow> d | None \<Rightarrow> now env);
          m0 = (case parsed of Some d \<Rightarrow> m
                | None \<Rightarrow> logged m (RegistrationDateDefaulted (ou_id old_user)));
          hashed_password_placeholder = ''migrated_placeholder_for_'' @ ou_username old_user;
          new_user = \<lparr>u_id = 0, u_username = ou_username old_user, u_email = ou_email old_user,
                      u_full_name = ou_full_name old_user,
                      u_hashed_password = hashed_password_placeholder,
                      u_is_active = True, u_is_superuser = False,
                      u_registration_date = registration_date,
                      u_phone_number = ou_phone_number_str old_user\<rparr>
      in case add_flush_user (new_db m0) new_user of
           Inl e \<Rightarrow> user_except e m0 old_user
         | Inr (s1, new_user_row) \<Rightarrow>
            (let m1 = m0\<lparr>new_db := s1,
                         old_user_id_to_new_user_map :=
                           (old_user_id_to_new_user_map m0)(ou_id old_user \<mapsto> new_user_row)\<rparr>
             in case create_address m1 new_user_row old_user of
                  Inl e \<Rightarrow> user_except e m1 old_user
                | Inr m2 \<Rightarrow>
                   if processed_users_count mod BATCH_SIZE = 0
                   then (case commit (new_db m2) of
                           Inl e \<Rightarrow> user_except e m2 old_user
                         | Inr s3 \<Rightarrow> m2\<lparr>new_db := s3\<rparr>)
                   else m2))"

fun users_loop :: "env \<Rightarrow> nat \<Rightarrow> migration \<Rightarrow> OldUser list \<Rightarrow> migration" where
  "users_loop env processed_users_count m [] = m"
| "users_loop env processed_users_count m (old_user # rest) =
     users_loop env (processed_users_count + 1)
       (user_iteration env (processed_users_count + 1) m old_user) rest"

definition migrate_users_and_addresses :: "env \<Rightarrow> legacy_db \<Rightarrow> migration \<Rightarrow> migration" where
  "migrate_users_and_addresses env old_db m =
     commit_or_rollback (users_loop env 0 m (old_users old_db))"

subsection \<open>Stage 3: products\<close>

definition date_formats :: "string list" where
  "date_formats = [''%d/%m/%Y'', ''%Y-%m-%d'']"

definition product_by_sku :: "session \<Rightarrow> string \<Rightarrow> Product option" where
  "product_by_sku s sku = find (\<lambda>p. p_sku p = sku) (products (working s))"

text \<open>\<open>not x\<close> for the result of \<open>dict.get\<close> on a dictionary of identifiers.\<close>

definition falsy_id :: "int option \<Rightarrow> bool" where
  "falsy_id i = (case i of None \<Rightarrow> True | Some n \<Rightarrow> n = 0)"

definition zero_price :: decimal where
  "zero_price = \<lparr>negative = False, coefficient = 0, exponent = - 2\<rparr>"

definition default_category_description :: string where
  "default_category_description =
     ''Categor'' @ [CHR 0xC3, CHR 0xAD] @ ''a por defecto para productos no categorizados.''"

text \<open>
  The category of a product. The result \<open>None\<close> is the \<open>continue\<close> that skips the product
  when the default category could not be created.
\<close>

definition resolve_category :: "migration \<Rightarrow> OldProduct \<Rightarrow> migration \<times> int option" where
  "resolve_category m old_product =
     (let normalized_cat_name = normalize_category_name (op_category_name_redundant old_product);
          new_category_id = old_category_name_to_new_category_id_map m normalized_cat_name
      in if falsy_id new_category_id then
           (case old_category_name_to_new_category_id_map m ''Unknown'' of
              Some unknown_id \<Rightarrow>
                (logged m (ProductCategoryDefaulted (op_id old_product)), Some unknown_id)
            | None \<Rightarrow>
               (case add_flush_category (new_db m)
                       \<lparr>c_id = 0, c_name = ''Unknown'',
                        c_description = Some default_category_description\<rparr> of
                  Inl e \<Rightarrow>
                    (logged (logged (m\<lparr>new_db := rollback (new_db m)\<rparr>) DefaultCategoryError)
                       (ProductWithoutCategory (op_id old_product)), None)
                | Inr (s1, default_cat) \<Rightarrow>
                   (let m1 = m\<lparr>new_db := s1,
                                old_category_name_to_new_category_id_map :=
                                  (old_category_name_to_new_category_id_map m)
                                    (''Unknown'' \<mapsto> c_id default_cat)\<rparr>
                    in case commit s1 of
                         Inl e \<Rightarrow>
                           (logged (logged (m1\<lparr>new_db := rollback s1\<rparr>) DefaultCategoryError)
                              (ProductWithoutCategory (op_id old_product)), None)
                       | Inr s2 \<Rightarrow>
                           (logged (m1\<lparr>new_db := s2\<rparr>) (ProductCategoryDefaulted (op_id old_product)),
                            Some (c_id default_cat)))))
         else (m, new_category_id))"

definition map_product :: "migration \<Rightarrow> OldProduct \<Rightarrow> Product \<Rightarrow> migration" where
  "map_product m old_product new_product =
     m\<lparr>old_product_id_to_new_product_map :=
          (old_product_id_to_new_product_map m)(op_id old_product \<mapsto> new_product),
       old_product_name_to_new_product_id_map :=
          (old_product_name_to_new_product_id_map m)(op_product_name old_product \<mapsto> p_id new_product)\<rparr>"

definition product_except :: "py_error \<Rightarrow> migration \<Rightarrow> OldProduct \<Rightarrow> string \<Rightarrow> migration" where
  "product_except e m old_product sku =
     (if e = IntegrityError then
        (let m1 = logged (m\<lparr>new_db := rollback (new_db m)\<rparr>)
                    (ProductIntegrityError (op_id old_product))
         in case product_by_sku (new_db m1) sku of
              Some existing_product \<Rightarrow> map_product m1 old_product existing_product
            | None \<Rightarrow> logged m1 (ProductNotRecovered (op_id old_product)))
      else logged (m\<lparr>new_db := rollback (new_db m)\<rparr>) (ProductError (op_id old_product)))"

definition product_iteration :: "env \<Rightarrow> nat \<Rightarrow> migration \<Rightarrow> OldProduct \<Rightarrow> migration" where
  "product_iteration env processed_count m old_product =
     (let extracted = extract_price_decimal (op_price_str old_product);
          price = (case extracted of Some d \<Rightarrow> d | None \<Rightarrow> zero_price);
          m0 = (case extracted of Some d \<Rightarrow> m
                | None \<Rightarrow> logged m (PriceInvalid (op_id old_product)));
          created_at_old_product =
            parse_datetime_flexible (strptime env) (op_created_at_str old_product) date_formats
      in case resolve_category m0 old_product of
           (m1, None) \<Rightarrow> m1
         | (m1, Some new_category_id) \<Rightarrow>
            (let sku = generate_sku (op_id old_product) (sku_draw env processed_count);
                 stamp = (case created_at_old_product of Some d \<Rightarrow> d | None \<Rightarrow> now env);
                 new_product = \<lparr>p_id = 0, p_name = op_product_name old_product,
                                 p_description = op_description old_product, p_price = price,
                                 p_sku = sku, p_stock_quantity = stock_draw env processed_count,
                                 p_category_id = new_category_id,
                                 p_created_at = stamp, p_updated_at = stamp\<rparr>
             in case add_flush_product (new_db m1) new_product of
                  Inl e \<Rightarrow> product_except e m1 old_product sku
                | Inr (s1, new_product_row) \<Rightarrow>
                   (let m2 = map_product (m1\<lparr>new_db := s1\<rparr>) old_product new_product_row
                    in if processed_count mod BATCH_SIZE = 0
                       then (case commit (new_db m2) of
                               Inl e \<Rightarrow> product_except e m2 old_product sku
                             | Inr s2 \<Rightarrow> m2\<lparr>new_db := s2\<rparr>)
                       else m2)))"

fun products_loop :: "env \<Rightarrow> nat \<Rightarrow> migration \<Rightarrow> OldProduct list \<Rightarrow> migration" where
  "products_loop env processed_count m [] = m"
| "products_loop env processed_count m (old_product # rest) =
     products_loop env (processed_count + 1)
       (product_iteration env (processed_count + 1) m old_product) rest"

definition migrate_products :: "env \<Rightarrow> legacy_db \<Rightarrow> migration \<Rightarrow> migration" where
  "migrate_products env old_db m =
     commit_or_rollback (products_loop env 0 m (old_products old_db))"

subsection \<open>Stage 4: orders and their items\<close>

definition order_date_formats :: "string list" where
  "order_date_formats = [''%Y-%m-%d'', ''%m/%d/%Y %I:%M %p'', ''%Y-%m-%d %H:%M:%S'']"

text \<open>\<open>{u.username: u for u in new_db.query(User).all()}\<close>: a later row wins.\<close>

definition users_by_username :: "session \<Rightarrow> (string \<rightharpoonup> User)" where
  "users_by_username s = map_of (rev (map (\<lambda>u. (u_username u, u)) (users (working s))))"

definition lookup_opt :: "('k \<rightharpoonup> 'v) \<Rightarrow> 'k option \<Rightarrow> 'v option" where
  "lookup_opt d key = (case key of None \<Rightarrow> None | Some k \<Rightarrow> d k)"

definition order_except :: "py_error \<Rightarrow> migration \<Rightarrow> OldOrder \<Rightarrow> migration" where
  "order_except e m old_order =
     (if e = IntegrityError
      then logged (m\<lparr>new_db := rollback (new_db m)\<rparr>) (OrderIntegrityError (oo_id old_order))
      else logged (m\<lparr>new_db := rollback (new_db m)\<rparr>) (OrderError (oo_id old_order)))"

text \<open>
  The part of the \<open>try\<close> block after the order was flushed: the look-up of the product and
  either the branch that gives the order up (\<open>expunge\<close>, and a rollback only when
  \<open>processed_count\<close> is a multiple of the batch size) or the creation of the item.
\<close>

definition create_item :: "nat \<Rightarrow> migration \<Rightarrow> OldOrder \<Rightarrow> Order \<Rightarrow> migration" where
  "create_item processed_count m old_order new_order =
     (let new_product_id = lookup_opt (old_product_name_to_new_product_id_map m)
                             (oo_product_name_redundant old_order)
      in case (if falsy_id new_product_id then None else new_product_id) of
           None \<Rightarrow>
             (let m1 = logged (logged (m\<lparr>new_db := expunge (new_db m) new_order\<rparr>)
                                 (OrderProductNotFound (oo_id old_order)))
                         (OrderNotMigrated (oo_id old_order))
              in if processed_count mod BATCH_SIZE = 0
                 then m1\<lparr>new_db := rollback (new_db m1)\<rparr>
                 else m1)
         | Some product_id \<Rightarrow>
             (let extracted = extract_price_decimal (oo_unit_price_str_redundant old_order);
                  unit_price = (case extracted of Some d \<Rightarrow> d | None \<Rightarrow> zero_price);
                  m1 = (case extracted of Some d \<Rightarrow> m
                        | None \<Rightarrow> logged m (UnitPriceInvalid (oo_id old_order)));
                  quantity = (case oo_quantity old_order of
                                Some q \<Rightarrow> if q \<noteq> 0 \<and> q > 0 then q else 1
                              | None \<Rightarrow> 1);
                  m2 = m1\<lparr>new_db := add_item (new_db m1)
                            \<lparr>i_id = 0, i_order_id = o_id new_order, i_product_id = product_id,
                             i_quantity = quantity, i_unit_price_at_purchase = unit_price\<rparr>\<rparr>
              in if processed_count mod BATCH_SIZE = 0
                 then (case commit (new_db m2) of
                         Inl e \<Rightarrow> order_except e m2 old_order
                       | Inr s \<Rightarrow> m2\<lparr>new_db := s\<rparr>)
                 else m2))"

definition order_iteration ::
  "env \<Rightarrow> (string \<rightharpoonup> User) \<Rightarrow> nat \<Rightarrow> migration \<Rightarrow> OldOrder \<Rightarrow> migration" where
  "order_iteration env new_users_by_username processed_count m old_order =
     (let user_identifier = oo_user_identifier_text old_order
      in case lookup_opt new_users_by_username user_identifier of
           None \<Rightarrow> logged m (OrderUserNotFound (oo_id old_order) user_identifier)
         | Some new_user_object \<Rightarrow>
            (let db_user_with_addresses =
                   find (\<lambda>u. u_id u = u_id new_user_object) (users (working (new_db m)));
                 user_addresses =
                   filter (\<lambda>a. a_user_id a = u_id new_user_object) (addresses (working (new_db m)))
             in if db_user_with_addresses = None \<or> user_addresses = []
                then logged m (OrderUserWithoutAddress (u_id new_user_object) (oo_id old_order))
                else
                  (let shipping_address =
                         (case find a_is_default_shipping user_addresses of
                            Some a \<Rightarrow> a | None \<Rightarrow> hd user_addresses);
                       billing_address =
                         (case find a_is_default_billing user_addresses of
                            Some a \<Rightarrow> a | None \<Rightarrow> shipping_address);
                       parsed = parse_datetime_flexible (strptime env)
                                  (oo_order_date_str old_order) order_date_formats;
                       order_date = (case parsed of Some d \<Rightarrow> d | None \<Rightarrow> now env);
                       m0 = (case parsed of Some d \<Rightarrow> m
                             | None \<Rightarrow> logged m (OrderDateDefaulted (oo_id old_order)));
                       status = map_order_status (oo_status_text old_order);
                       new_order = \<lparr>o_id = 0, o_user_id = u_id new_user_object,
                                     o_order_date = order_date, o_status = status,
                                     o_shipping_address_id = a_id shipping_address,
                                     o_billing_address_id = a_id billing_address\<rparr>
                   in case add_flush_order (new_db m0) new_order of
                        Inl e \<Rightarrow> order_except e m0 old_order
                      | Inr (s1, new_order_row) \<Rightarrow>
                          create_item processed_count (m0\<lparr>new_db := s1\<rparr>) old_order new_order_row)))"

fun orders_loop ::
  "env \<Rightarrow> (string \<rightharpoonup> User) \<Rightarrow> nat \<Rightarrow> migration \<Rightarrow> OldOrder list \<Rightarrow> migration" where
  "orders_loop env new_users_by_username processed_count m [] = m"
| "orders_loop env new_users_by_username processed_count m (old_order # rest) =
     orders_loop env new_users_by_username (processed_count + 1)
       (order_iteration env new_users_by_username (processed_count + 1) m old_order) rest"

definition migrate_orders_and_items :: "env \<Rightarrow> legacy_db \<Rightarrow> migration \<Rightarrow> migration" where
  "migrate_orders_and_items env old_db m =
     commit_or_rollback
       (orders_loop env (users_by_username (new_db m)) 0 m (old_orders old_db))"

subsection \<open>The whole run\<close>

text \<open>
  \<open>main_migration_process\<close> opens a session on the target store, runs the four stages in
  order and closes the session, which abandons whatever is not committed. The result
  of a run is the state of the run after the last stage; \<open>close\<close> gives the session the
  next process starts from.
\<close>

definition main_migration_process :: "env \<Rightarrow> legacy_db \<Rightarrow> session \<Rightarrow> migration" where
  "main_migration_process env old_db s =
     migrate_orders_and_items env old_db
       (migrate_products env old_db
          (migrate_users_and_addresses env old_db
             (migrate_product_categories old_db (start_migration s))))"

definition close :: "session \<Rightarrow> session" where
  "close s = rollback s"

definition run_twice :: "env \<Rightarrow> env \<Rightarrow> legacy_db \<Rightarrow> session \<Rightarrow> migration" where
  "run_twice env1 env2 old_db s =
     main_migration_process env2 old_db (close (new_db (main_migration_process env1 old_db s)))"

section \<open>Sample legacy data\<close>

text \<open>
  A small legacy store for evaluating the scripts: a clock and a \<open>strptime\<close> that parses
  nothing (every date falls back to the clock), fixed random draws, three users, one
  product and two orders, the second of them for a product that was never migrated.
\<close>

definition sample_env :: "int \<Rightarrow> env" where
  "sample_env draw = \<lparr>strptime = (\<lambda>s fmt. None), now = 0, sku_draw = (\<lambda>n. draw),
                       stock_draw = (\<lambda>n. 5)\<rparr>"

definition sample_user :: "int \<Rightarrow> string \<Rightarrow> OldUser" where
  "sample_user i name =
     \<lparr>ou_id = i, ou_username = name, ou_email = Some (name @ ''@example.org''),
      ou_full_name = None, ou_registration_date_str = None,
      ou_address_combined = Some ''123 Main St, Springfield, IL 62704, USA'',
      ou_phone_number_str = None\<rparr>"

definition widget :: OldProduct where
  "widget = \<lparr>op_id = 1, op_product_name = ''Widget'', op_description = None,
             op_price_str = Some ''25.99 USD'', op_category_name_redundant = Some ''electronics'',
             op_created_at_str = None\<rparr>"

definition widget_order :: OldOrder where
  "widget_order =
     \<lparr>oo_id = 1, oo_user_identifier_text = Some ''alice'', oo_order_date_str = None,
      oo_status_text = Some ''shipped'', oo_product_name_redundant = Some ''Widget'',
      oo_quantity = Some 2, oo_unit_price_str_redundant = Some ''25.99 USD'',
      oo_total_order_amount_str = Some ''51.98 USD''\<rparr>"

definition ghost_order :: OldOrder where
  "ghost_order = widget_order\<lparr>oo_id := 2, oo_product_name_redundant := Some ''Ghost''\<rparr>"

definition sample_legacy :: "OldOrder list \<Rightarrow> legacy_db" where
  "sample_legacy os =
     \<lparr>old_users = [sample_user 1 ''alice''], old_products = [widget], old_orders = os\<rparr>"

definition three_users :: legacy_db where
  "three_users =
     \<lparr>old_users = [sample_user 1 ''alice'', sample_user 2 ''bob'', sample_user 3 ''carol''],
      old_products = [], old_orders = []\<rparr>"

text \<open>A target store in which the user \<open>bob\<close> is already committed.\<close>

definition session_with_bob :: session where
  "session_with_bob =
     close (new_db (migrate_users_and_addresses (sample_env 100)
              \<lparr>old_users = [sample_user 2 ''bob''], old_products = [], old_orders = []\<rparr>
              (start_migration fresh_session)))"

text \<open>
  More sample data: a user without an address, orders of an unknown user and of the
  user without an address, and a second product with an order for it.
\<close>

definition dave :: OldUser where
  "dave = (sample_user 4 ''dave'')\<lparr>ou_address_combined := None\<rparr>"

text \<open>A legacy user with a username of his own and the e-mail address of \<open>bob\<close>.\<close>

definition robert :: OldUser where
  "robert = (sample_user 5 ''robert'')\<lparr>ou_email := Some ''bob@example.org''\<rparr>"

definition mallory_order :: OldOrder where
  "mallory_order = widget_order\<lparr>oo_id := 3, oo_user_identifier_text := Some ''mallory''\<rparr>"

definition dave_order :: OldOrder where
  "dave_order = widget_order\<lparr>oo_id := 4, oo_user_identifier_text := Some ''dave''\<rparr>"

definition gadget :: OldProduct where
  "gadget = widget\<lparr>op_id := 2, op_product_name := ''Gadget''\<rparr>"

definition gadget_order :: OldOrder where
  "gadget_order = widget_order\<lparr>oo_id := 5, oo_product_name_redundant := Some ''Gadget''\<rparr>"

text \<open>The first three stages of a run.\<close>

definition before_orders :: "legacy_db \<Rightarrow> session \<Rightarrow> migration" where
  "before_orders old_db s =
     migrate_products (sample_env 100) old_db
       (migrate_users_and_addresses (sample_env 100) old_db
          (migrate_product_categories old_db (start_migration s)))"

definition ready_for_orders :: migration where
  "ready_for_orders =
     before_orders \<lparr>old_users = [sample_user 1 ''alice'', dave], old_products = [widget],
                     old_orders = []\<rparr> fresh_session"

definition users_before_bob :: migration where
  "users_before_bob =
     users_loop (sample_env 100) 0 (start_migration session_with_bob) [sample_user 1 ''alice'']"

definition session_with_gadget :: session where
  "session_with_gadget =
     close (new_db (main_migration_process (sample_env 100)
              \<lparr>old_users = [], old_products = [gadget], old_orders = []\<rparr> fresh_session))"

definition ready_after_gadget :: migration where
  "ready_after_gadget =
     before_orders \<lparr>old_users = [sample_user 1 ''alice''], old_products = [widget, gadget],
                     old_orders = []\<rparr> session_with_gadget"

definition after_widget_order :: migration where
  "after_widget_order =
     (let m = ready_after_gadget
      in orders_loop (sample_env 100) (users_by_username (new_db m)) 0 m [widget_order])"

text \<open>The runs that the properties below evaluate.\<close>

definition ghost_run :: migration where
  "ghost_run = main_migration_process (sample_env 100) (sample_legacy [ghost_order]) fresh_session"



definition users_on_bob :: migration where
  "users_on_bob =
     migrate_users_and_addresses (sample_env 100) three_users (start_migration session_with_bob)"


section \<open>Invariants of a run\<close>

text \<open>
  The canonical form of a non-empty category name, \<open>name.strip().capitalize()\<close>: what
  \<open>normalize_category_name\<close> returns on a non-empty name.
\<close>

definition canon :: "string \<Rightarrow> string" where
  "canon name = py_capitalize (py_strip name)"

text \<open>No object is waiting for a flush.\<close>

definition nothing_pending :: "session \<Rightarrow> bool" where
  "nothing_pending s = (new_addresses s = [] \<and> new_items s = [])"

text \<open>
  Every entry of the category dictionary points to a row of the open transaction that
  carries the canonical form of the key, and the canonical form of a key is itself a
  key with the same identifier.
\<close>

definition category_map_ok :: "migration \<Rightarrow> bool" where
  "category_map_ok m =
     (\<forall>k v. old_category_name_to_new_category_id_map m k = Some v \<longrightarrow>
        old_category_name_to_new_category_id_map m (canon k) = Some v
        \<and> (\<exists>c \<in> set (product_categories (working (new_db m))). c_id c = v \<and> c_name c = canon k))"

definition cat_inv :: "migration \<Rightarrow> bool" where
  "cat_inv m = (nothing_pending (new_db m) \<and> category_map_ok m)"

text \<open>The names in the category table of the open transaction.\<close>

definition names_of :: "migration \<Rightarrow> string set" where
  "names_of m = set (map c_name (product_categories (working (new_db m))))"

text \<open>
  The keys that the categories loop adds to a dictionary whose keys are \<open>seen\<close>: for each
  canonical form not seen yet, the raw form and the canonical form of the first
  non-empty name of the list that has it.
\<close>

definition first_forms :: "string set \<Rightarrow> string option list \<Rightarrow> string set" where
  "first_forms seen names =
     {k. \<exists>pre raw post. names = pre @ Some raw # post \<and> raw \<noteq> [] \<and> canon raw \<notin> seen
           \<and> (\<forall>r. Some r \<in> set pre \<and> r \<noteq> [] \<longrightarrow> canon r \<noteq> canon raw)
           \<and> (k = raw \<or> k = canon raw)}"

text \<open>
  Frames. A part \<open>f\<close> of the tables is kept from one session to another when it is the
  same in the open transaction and in the committed rows and the pending addresses are
  the same; it is settled when the open transaction and the committed rows agree on it
  and no address is pending. \<open>uac\<close> and \<open>ua\<close> are the parts that a second run is shown to
  keep.
\<close>

definition keeps :: "(tables \<Rightarrow> 'a) \<Rightarrow> session \<Rightarrow> session \<Rightarrow> bool" where
  "keeps f s s' = (f (working s') = f (working s) \<and> f (committed s') = f (committed s)
                   \<and> new_addresses s' = new_addresses s)"

definition settled :: "(tables \<Rightarrow> 'a) \<Rightarrow> session \<Rightarrow> bool" where
  "settled f s = (f (working s) = f (committed s) \<and> new_addresses s = [])"

definition uac :: "tables \<Rightarrow> User list \<times> Address list \<times> ProductCategory list" where
  "uac t = (users t, addresses t, product_categories t)"

definition ua :: "tables \<Rightarrow> User list \<times> Address list" where
  "ua t = (users t, addresses t)"

text \<open>
  The part of \<open>product_iteration\<close> after the category was resolved: the insert of the
  product, the two dictionary entries and the commit at the end of a batch, with the
  handlers.
\<close>

definition insert_product_part :: "env \<Rightarrow> nat \<Rightarrow> migration \<Rightarrow> OldProduct \<Rightarrow> Product \<Rightarrow> migration" where
  "insert_product_part env pc m1 old_product new_product =
     (case add_flush_product (new_db m1) new_product of
        Inl e \<Rightarrow> product_except e m1 old_product (p_sku new_product)
      | Inr (s1, new_product_row) \<Rightarrow>
         (let m2 = map_product (m1\<lparr>new_db := s1\<rparr>) old_product new_product_row
          in if pc mod BATCH_SIZE = 0
             then (case commit (new_db m2) of
                     Inl e \<Rightarrow> product_except e m2 old_product (p_sku new_product)
                   | Inr s2 \<Rightarrow> m2\<lparr>new_db := s2\<rparr>)
             else m2))"

text \<open>
  The pending objects can be flushed: no item is pending and every pending address
  belongs to a user of the open transaction.
\<close>

definition pending_valid :: "session \<Rightarrow> bool" where
  "pending_valid s = (new_items s = []
     \<and> (\<forall>a \<in> set (new_addresses s). a_user_id a \<in> set (map u_id (users (working s)))))"

text \<open>No category has the identifier 0, which \<open>if not new_category_id\<close> takes for absent.\<close>

definition pos_ids :: "session \<Rightarrow> bool" where
  "pos_ids s = (0 < seq_product_categories s
     \<and> (\<forall>c \<in> set (product_categories (working s)). c_id c \<noteq> 0)
     \<and> (\<forall>c \<in> set (product_categories (committed s)). c_id c \<noteq> 0))"

text \<open>
  \<open>logged_since m r e\<close>: the entry \<open>e\<close> was written to the log between the states \<open>m\<close> and
  \<open>r\<close>. \<open>rolled_back m r\<close>: in \<open>r\<close> the open transaction holds exactly the rows that were
  committed in \<open>m\<close>, these are still the committed rows, and nothing is pending.
  \<open>order_failure\<close>: the two entries the handlers of the orders loop write.
\<close>

definition logged_since :: "migration \<Rightarrow> migration \<Rightarrow> log_entry \<Rightarrow> bool" where
  "logged_since m r e = (\<exists>es. log r = log m @ es \<and> e \<in> set es)"

definition rolled_back :: "migration \<Rightarrow> migration \<Rightarrow> bool" where
  "rolled_back m r = (working (new_db r) = committed (new_db m)
     \<and> committed (new_db r) = committed (new_db m) \<and> nothing_pending (new_db r))"

definition order_failure :: "OldOrder \<Rightarrow> log_entry set" where
  "order_failure old_order = {OrderIntegrityError (oo_id old_order), OrderError (oo_id old_order)}"

section \<open>Properties of the normalizers\<close>

subsection \<open>Status mapper\<close>

lemma map_order_status_processing: "map_order_status (Some ''processing'') = PENDING"
  by code_simp

text \<open>
  Claim C10. For every input, absent and empty included, the record-at-a-time status
  mapper returns one of \<open>PENDING\<close>, \<open>SHIPPED\<close>, \<open>DELIVERED\<close>, \<open>CANCELLED\<close>; it never
  returns \<open>PROCESSING\<close> or \<open>REFUNDED\<close>, and \<open>"processing"\<close> is mapped to \<open>PENDING\<close>.
\<close>

theorem map_order_status_closed:
  "map_order_status s \<in> {PENDING, SHIPPED, DELIVERED, CANCELLED}
   \<and> map_order_status s \<noteq> PROCESSING \<and> map_order_status s \<noteq> REFUNDED
   \<and> map_order_status (Some ''processing'') = PENDING"
proof -
  have "map_order_status s \<in> {PENDING, SHIPPED, DELIVERED, CANCELLED}"
    by (simp add: map_order_status_def Let_def split: option.split)
  then show ?thesis
    using map_order_status_processing by auto
qed

subsection \<open>The columnar variant against the record-at-a-time variant\<close>









subsection \<open>Price parser\<close>

lemma extract_price_decimal_examples:
  "extract_price_decimal (Some ''25.99 USD'') = Some \<lparr>negative = False, coefficient = 2599, exponent = - 2\<rparr>"
  "extract_price_decimal (Some ''10.99-12.99'') = Some \<lparr>negative = False, coefficient = 1099, exponent = - 2\<rparr>"
  "extract_price_decimal (Some ''contact us'') = None"
  by code_simp+

text \<open>
  Claim C6 fails on the code for a price with a leading minus sign. The cleaned text of
  \<open>"-5.00"\<close> is \<open>"-5.00"\<close> itself, a well-formed literal of the decimal \<open>-5.00\<close>, but
  \<open>split('-')[0]\<close> is the empty text before the sign, its conversion fails and the
  parser returns the sentinel.
\<close>

theorem extract_price_decimal_leading_minus:
  "extract_price_decimal (Some ''-5.00'') = None
   \<and> clean_price ''-5.00'' = ''-5.00''
   \<and> Decimal_of_str ''-5.00'' = Inr \<lparr>negative = True, coefficient = 500, exponent = - 2\<rparr>
   \<and> hd (py_split CHR ''-'' ''-5.00'') = []"
  by code_simp

subsection \<open>SKU\<close>

text \<open>
  Claim C4 fails on the record-at-a-time code: the SKU of one legacy product depends on
  the random draw, so two evaluations for the same legacy identifier can differ.
\<close>

theorem generate_sku_depends_on_draw:
  "generate_sku 7 100 \<noteq> generate_sku 7 101
   \<and> 100 \<in> randint_100_999 \<and> 101 \<in> randint_100_999
   \<and> generate_sku 7 100 = ''SKU-00007-100''"
proof -
  have "generate_sku 7 100 \<noteq> generate_sku 7 101" and "generate_sku 7 100 = ''SKU-00007-100''"
    by code_simp+
  moreover have "(100::int) \<in> randint_100_999" and "(101::int) \<in> randint_100_999"
    by (simp_all add: randint_100_999_def)
  ultimately show ?thesis by simp
qed

subsection \<open>Address parser and the sentinels\<close>

lemma py_split_nonempty: "py_split sep s \<noteq> []"
  by (induction s) (auto split: list.splits)

lemma py_getitem_ok:
  "(0 \<le> i \<and> i < int (length xs)) \<or> (i < 0 \<and> - i \<le> int (length xs)) \<Longrightarrow> \<exists>x. py_getitem xs i = Inr x"
  by (auto simp: py_getitem_def)

lemma city_state_zip_ok:
  "\<exists>p zm. city_state_zip parts parsed = Inr (p, zm) \<and> (length parts > 1 \<longrightarrow> zm \<noteq> None)"
proof (cases "length parts > 1")
  case False
  then show ?thesis by (simp add: city_state_zip_def)
next
  case True
  then have "\<exists>cand. py_getitem parts (if length parts > 2 then - 2 else - 1) = Inr cand"
    by (intro py_getitem_ok) (simp split: if_split)
  then obtain cand where "py_getitem parts (if length parts > 2 then - 2 else - 1) = Inr cand"
    by blast
  then show ?thesis using True
    by (auto simp: city_state_zip_def Let_def split: option.splits)
qed

lemma country_of_ok:
  "(length parts > 1 \<longrightarrow> zm \<noteq> None) \<Longrightarrow> \<exists>c. country_of parts zm = Inr c"
  using py_getitem_ok[of "- 1" parts]
  by (auto simp: country_of_def split: option.splits)

lemma clean_field_nonempty: "clean_field v \<noteq> []"
  by (simp add: clean_field_def)

lemma truncate_final_nonempty:
  "street (truncate_fields (final_cleanup p\<lparr>city := c\<rparr>)) \<noteq> []"
  "zip_code (truncate_fields (final_cleanup p\<lparr>city := c\<rparr>)) \<noteq> []"
  "country (truncate_fields (final_cleanup p\<lparr>city := c\<rparr>)) \<noteq> []"
  "street (truncate_fields (final_cleanup p)) \<noteq> []"
  "zip_code (truncate_fields (final_cleanup p)) \<noteq> []"
  "country (truncate_fields (final_cleanup p)) \<noteq> []"
  by (simp_all add: truncate_fields_def final_cleanup_def clean_field_nonempty)

lemma parse_address_Some_ok:
  "\<exists>r. parse_address (Some a) = Inr r \<and> street r \<noteq> [] \<and> zip_code r \<noteq> [] \<and> country r \<noteq> []"
proof (cases "a = []")
  case True
  then show ?thesis by (simp add: parse_address_def parsed_init_def)
next
  case False
  define parts where "parts = map py_strip (py_split CHR '','' a)"
  have ne: "parts \<noteq> []" by (simp add: parts_def py_split_nonempty)
  then obtain st where st: "py_getitem parts 0 = Inr st"
    using py_getitem_ok[of 0 parts] by auto
  obtain p zm where csz: "city_state_zip parts (parsed_init\<lparr>street := st\<rparr>) = Inr (p, zm)"
    and zm: "length parts > 1 \<longrightarrow> zm \<noteq> None"
    using city_state_zip_ok by blast
  obtain c where c: "country_of parts zm = Inr c"
    using country_of_ok[OF zm] by blast
  show ?thesis
  proof (cases "city (final_cleanup (p\<lparr>country := c\<rparr>)) = ''N/A'' \<and> length parts > 1")
    case True
    then obtain p1 where "py_getitem parts 1 = Inr p1"
      using py_getitem_ok[of 1 parts] by auto
    then show ?thesis using False ne st csz c True
      by (simp add: parse_address_def parts_def[symmetric] Let_def truncate_final_nonempty)
  next
    case F2: False
    then show ?thesis using False ne st csz c
      by (auto simp add: parse_address_def parts_def[symmetric] Let_def truncate_final_nonempty)
  qed
qed

text \<open>
  Claim C7, as stated, fails: on an absent (\<open>None\<close>) value \<open>parse_address\<close> calls
  \<open>address_combined.split\<close> before its emptiness check and raises \<open>AttributeError\<close>.
\<close>

theorem parse_address_None_raises: "parse_address None = Inl AttributeError"
  by (simp add: parse_address_def)

text \<open>
  Claim C7, amended. On every string, the empty one included, \<open>parse_address\<close> raises
  nothing and returns the five components, with street, zip code and country never
  empty (on the empty string all five are \<open>"N/A"\<close>); on an absent value it raises
  \<open>AttributeError\<close>. The date, price, category and status normalizers return their
  sentinel or default for the absent and for the empty input.
\<close>

theorem normalizers_sentinels:
  "(\<exists>r. parse_address (Some a) = Inr r \<and> street r \<noteq> [] \<and> zip_code r \<noteq> [] \<and> country r \<noteq> [])
   \<and> parse_address (Some []) = Inr parsed_init
   \<and> parse_address None = Inl AttributeError
   \<and> extract_price_decimal None = None \<and> extract_price_decimal (Some []) = None
   \<and> parse_datetime_flexible parse None formats = None
   \<and> parse_datetime_flexible parse (Some []) formats = None
   \<and> normalize_category_name None = ''Unknown'' \<and> normalize_category_name (Some []) = ''Unknown''
   \<and> map_order_status None = PENDING \<and> map_order_status (Some []) = PENDING"
  using parse_address_Some_ok[of a]
  by (simp add: parse_address_def extract_price_decimal_def parse_datetime_flexible_def
      normalize_category_name_def map_order_status_def)

section \<open>Properties of the stages\<close>

subsection \<open>Case transforms and trimming\<close>

lemma isspace_upper [simp]: "isspace_chr (upper_chr c) = isspace_chr c"
  by (auto simp: isspace_chr_def upper_chr_def islower_chr_def Let_def)

lemma isspace_lower [simp]: "isspace_chr (lower_chr c) = isspace_chr c"
  by (auto simp: isspace_chr_def lower_chr_def isupper_chr_def Let_def)

lemma upper_upper [simp]: "upper_chr (upper_chr c) = upper_chr c"
  by (auto simp: upper_chr_def islower_chr_def Let_def)

lemma lower_lower [simp]: "lower_chr (lower_chr c) = lower_chr c"
  by (auto simp: lower_chr_def isupper_chr_def Let_def)

lemma py_lower_idem [simp]: "py_lower (py_lower s) = py_lower s"
  by (simp add: py_lower_def)

lemma py_capitalize_idem [simp]: "py_capitalize (py_capitalize s) = py_capitalize s"
  by (cases s) simp_all

lemma py_strip_no_space_ends:
  assumes "s \<noteq> []" "\<not> isspace_chr (hd s)" "\<not> isspace_chr (last s)"
  shows "py_strip s = s"
proof -
  have "dropWhile isspace_chr s = s"
    using assms by (simp add: dropWhile_eq_self_iff)
  moreover have "dropWhile isspace_chr (rev s) = rev s"
    using assms by (simp add: dropWhile_eq_self_iff hd_rev)
  ultimately show ?thesis by (simp add: py_strip_def)
qed

lemma last_dropWhile_nonempty:
  "dropWhile P xs \<noteq> [] \<Longrightarrow> last (dropWhile P xs) = last xs"
proof -
  assume ne: "dropWhile P xs \<noteq> []"
  have "last xs = last (takeWhile P xs @ dropWhile P xs)" by simp
  also have "\<dots> = last (dropWhile P xs)" using ne by (rule last_appendR)
  finally show ?thesis by simp
qed

lemma py_strip_ends:
  assumes ne: "py_strip s \<noteq> []"
  shows "\<not> isspace_chr (hd (py_strip s)) \<and> \<not> isspace_chr (last (py_strip s))"
proof -
  define d where "d = dropWhile isspace_chr s"
  define t where "t = dropWhile isspace_chr (rev d)"
  have ps: "py_strip s = rev t" by (simp add: py_strip_def t_def d_def)
  with ne have tne: "t \<noteq> []" by simp
  then have dne: "d \<noteq> []" by (auto simp: t_def)
  have "\<not> isspace_chr (hd t)" using tne unfolding t_def by (rule hd_dropWhile)
  then have l: "\<not> isspace_chr (last (py_strip s))" using tne by (simp add: ps last_rev)
  have "hd (py_strip s) = last t" using tne by (simp add: ps hd_rev)
  also have "\<dots> = last (rev d)" using tne unfolding t_def by (rule last_dropWhile_nonempty)
  also have "\<dots> = hd d" using dne by (simp add: last_rev)
  finally have "hd (py_strip s) = hd d" .
  moreover have "\<not> isspace_chr (hd d)" using dne unfolding d_def by (rule hd_dropWhile)
  ultimately show ?thesis using l by simp
qed

lemma capitalize_ends:
  "s \<noteq> [] \<Longrightarrow> isspace_chr (hd (py_capitalize s)) = isspace_chr (hd s)
      \<and> isspace_chr (last (py_capitalize s)) = isspace_chr (last s) \<and> py_capitalize s \<noteq> []"
  by (cases s) (auto simp: py_lower_def last_map)

lemma canon_idem: "canon (canon k) = canon k"
proof (cases "py_strip k = []")
  case True
  then have "canon k = []" by (simp add: canon_def)
  moreover have "canon [] = []" by (simp add: canon_def py_strip_def)
  ultimately show ?thesis by simp
next
  case False
  let ?c = "py_capitalize (py_strip k)"
  have "py_strip ?c = ?c"
    using py_strip_ends[OF False] capitalize_ends[OF False]
    by (intro py_strip_no_space_ends) auto
  then show ?thesis by (simp add: canon_def)
qed

subsection \<open>Session operations when nothing is pending\<close>

lemma flush_nothing_pending: "nothing_pending s \<Longrightarrow> flush s = Inr s"
  by (cases s) (simp add: flush_def nothing_pending_def)

lemma commit_nothing_pending:
  "nothing_pending s \<Longrightarrow> commit s = Inr (s\<lparr>committed := working s\<rparr>)"
  by (simp add: commit_def flush_nothing_pending)

lemma commit_or_rollback_nothing_pending:
  "nothing_pending (new_db m) \<Longrightarrow>
     commit_or_rollback m = m\<lparr>new_db := (new_db m)\<lparr>committed := working (new_db m)\<rparr>\<rparr>"
  by (simp add: commit_or_rollback_def commit_nothing_pending)

lemma normalize_nonempty: "raw \<noteq> [] \<Longrightarrow> normalize_category_name (Some raw) = canon raw"
  by (simp add: normalize_category_name_def canon_def)

lemma map_category_simps [simp]:
  "new_db (map_category m raw n i) = new_db m"
  "log (map_category m raw n i) = log m"
  "old_category_name_to_new_category_id_map (map_category m raw n i) k =
     (if k = raw \<or> k = n then Some i else old_category_name_to_new_category_id_map m k)"
  by (simp_all add: map_category_def Let_def)

lemma category_by_name_Some:
  "category_by_name s n = Some c \<Longrightarrow> c \<in> set (product_categories (working s)) \<and> c_name c = n"
  by (auto simp: category_by_name_def find_Some_iff)

lemma category_by_name_None:
  "category_by_name s n = None \<Longrightarrow> n \<notin> set (map c_name (product_categories (working s)))"
  by (auto simp: category_by_name_def find_None_iff)

lemma add_flush_category_ok:
  assumes "nothing_pending s" "n \<notin> set (map c_name (product_categories (working s)))"
  shows "add_flush_category s \<lparr>c_id = 0, c_name = n, c_description = d\<rparr> =
           Inr (s\<lparr>seq_product_categories := seq_product_categories s + 1,
                   working := (working s)\<lparr>product_categories := product_categories (working s) @
                      [\<lparr>c_id = seq_product_categories s, c_name = n, c_description = d\<rparr>]\<rparr>\<rparr>,
                \<lparr>c_id = seq_product_categories s, c_name = n, c_description = d\<rparr>)"
proof -
  let ?s1 = "s\<lparr>seq_product_categories := seq_product_categories s + 1,
                   working := (working s)\<lparr>product_categories := product_categories (working s) @
                      [\<lparr>c_id = seq_product_categories s, c_name = n, c_description = d\<rparr>]\<rparr>\<rparr>"
  have "nothing_pending ?s1" using assms(1) by (simp add: nothing_pending_def)
  then have "flush ?s1 = Inr ?s1" by (rule flush_nothing_pending)
  then show ?thesis using assms(2)
    by (simp add: add_flush_category_def insert_category_def Let_def)
qed

lemma map_category_ok:
  assumes ok: "category_map_ok m"
    and fresh: "old_category_name_to_new_category_id_map m (canon raw) = None"
    and row: "c \<in> set (product_categories (working (new_db m)))" "c_name c = canon raw"
  shows "category_map_ok (map_category m raw (canon raw) (c_id c))"
  unfolding category_map_ok_def
proof (intro allI impI)
  fix k v
  let ?M = "old_category_name_to_new_category_id_map"
  assume kv: "?M (map_category m raw (canon raw) (c_id c)) k = Some v"
  show "?M (map_category m raw (canon raw) (c_id c)) (canon k) = Some v \<and>
        (\<exists>c\<in>set (product_categories (working (new_db (map_category m raw (canon raw) (c_id c))))).
            c_id c = v \<and> c_name c = canon k)"
  proof (cases "k = raw \<or> k = canon raw")
    case True
    then have "canon k = canon raw" by (auto simp: canon_idem)
    moreover have "v = c_id c" using kv True by auto
    ultimately show ?thesis using row by auto
  next
    case False
    then have old: "?M m k = Some v" using kv by simp
    then have ck: "?M m (canon k) = Some v"
      and ex: "\<exists>c\<in>set (product_categories (working (new_db m))). c_id c = v \<and> c_name c = canon k"
      using ok unfolding category_map_ok_def by blast+
    have "canon k \<noteq> canon raw" using ck fresh by auto
    moreover have "canon k \<noteq> raw"
    proof
      assume "canon k = raw"
      then have "canon raw = canon k" using canon_idem[of k] by simp
      then show False using ck fresh by simp
    qed
    ultimately show ?thesis using ck ex by simp
  qed
qed

lemma category_map_ok_new_db:
  assumes "category_map_ok m"
    "old_category_name_to_new_category_id_map m' = old_category_name_to_new_category_id_map m"
    "set (product_categories (working (new_db m))) \<subseteq> set (product_categories (working (new_db m')))"
  shows "category_map_ok m'"
  using assms unfolding category_map_ok_def by (metis subsetD)

lemma create_category_inv:
  assumes inv: "cat_inv m"
    and fresh: "old_category_name_to_new_category_id_map m (canon raw) = None"
  shows "cat_inv (create_category m raw (canon raw))
       \<and> old_category_name_to_new_category_id_map (create_category m raw (canon raw)) (canon raw) \<noteq> None
       \<and> (\<forall>k v. old_category_name_to_new_category_id_map m k = Some v \<longrightarrow>
              old_category_name_to_new_category_id_map (create_category m raw (canon raw)) k = Some v)"
proof -
  let ?M = "old_category_name_to_new_category_id_map"
  have np: "nothing_pending (new_db m)" and ok: "category_map_ok m"
    using inv by (simp_all add: cat_inv_def)
  have rawfresh: "?M m raw = None"
  proof (cases "?M m raw")
    case (Some v)
    then have "?M m (canon raw) = Some v" using ok unfolding category_map_ok_def by blast
    then show ?thesis using fresh by simp
  qed simp
  have keep: "\<And>m1 i. ?M m1 = ?M m \<Longrightarrow>
      (\<forall>k v. ?M m k = Some v \<longrightarrow> ?M (map_category m1 raw (canon raw) i) k = Some v)"
    using fresh rawfresh by auto
  show ?thesis
  proof (cases "category_by_name (new_db m) (canon raw)")
    case (Some c)
    then have cc: "create_category m raw (canon raw) = map_category m raw (canon raw) (c_id c)"
      by (simp add: create_category_def)
    have row: "c \<in> set (product_categories (working (new_db m)))" "c_name c = canon raw"
      using category_by_name_Some[OF Some] by auto
    have "category_map_ok (map_category m raw (canon raw) (c_id c))"
      using map_category_ok[OF ok fresh row] .
    then show ?thesis using np keep[of m] unfolding cc cat_inv_def by simp
  next
    case None
    let ?d = "Some (category_description (canon raw))"
    let ?row = "\<lparr>c_id = seq_product_categories (new_db m), c_name = canon raw, c_description = ?d\<rparr>"
    let ?s1 = "(new_db m)\<lparr>seq_product_categories := seq_product_categories (new_db m) + 1,
                   working := (working (new_db m))\<lparr>product_categories :=
                      product_categories (working (new_db m)) @ [?row]\<rparr>\<rparr>"
    let ?m1 = "m\<lparr>new_db := ?s1\<rparr>"
    have af: "add_flush_category (new_db m) \<lparr>c_id = 0, c_name = canon raw, c_description = ?d\<rparr>
               = Inr (?s1, ?row)"
      using add_flush_category_ok[OF np category_by_name_None[OF None]] .
    have cc: "create_category m raw (canon raw) = map_category ?m1 raw (canon raw) (c_id ?row)"
      using None af by (simp add: create_category_def)
    have ok1: "category_map_ok ?m1"
      by (rule category_map_ok_new_db[OF ok]) auto
    have "category_map_ok (map_category ?m1 raw (canon raw) (c_id ?row))"
      by (rule map_category_ok[OF ok1]) (use fresh in auto)
    moreover have "nothing_pending ?s1" using np by (simp add: nothing_pending_def)
    ultimately show ?thesis using keep[of ?m1] unfolding cc cat_inv_def by simp
  qed
qed

lemma logged_simps [simp]:
  "new_db (logged m e) = new_db m"
  "log (logged m e) = log m @ [e]"
  "old_category_name_to_new_category_id_map (logged m e) = old_category_name_to_new_category_id_map m"
  "old_user_id_to_new_user_map (logged m e) = old_user_id_to_new_user_map m"
  "old_product_id_to_new_product_map (logged m e) = old_product_id_to_new_product_map m"
  "old_product_name_to_new_product_id_map (logged m e) = old_product_name_to_new_product_id_map m"
  by (simp_all add: logged_def)

lemma cat_inv_logged [simp]: "cat_inv (logged m e) = cat_inv m"
  by (simp add: cat_inv_def category_map_ok_def)

lemma cat_inv_commit:
  assumes "cat_inv m"
  shows "cat_inv (commit_or_rollback m)"
    and "old_category_name_to_new_category_id_map (commit_or_rollback m) =
         old_category_name_to_new_category_id_map m"
    and "committed (new_db (commit_or_rollback m)) = working (new_db m)"
    and "working (new_db (commit_or_rollback m)) = working (new_db m)"
  using assms
  by (simp_all add: cat_inv_def commit_or_rollback_nothing_pending nothing_pending_def
      category_map_ok_def)

lemma category_iteration_inv:
  assumes inv: "cat_inv m"
  shows "cat_inv (snd (category_iteration pc m x))
       \<and> (\<forall>k v. old_category_name_to_new_category_id_map m k = Some v \<longrightarrow>
              old_category_name_to_new_category_id_map (snd (category_iteration pc m x)) k = Some v)
       \<and> (\<forall>raw. x = Some raw \<and> raw \<noteq> [] \<longrightarrow>
              old_category_name_to_new_category_id_map (snd (category_iteration pc m x)) (canon raw) \<noteq> None)"
proof (cases x)
  case None
  then show ?thesis using inv by (simp add: category_iteration_def)
next
  case (Some raw)
  show ?thesis
  proof (cases "raw = []")
    case True
    then show ?thesis using inv Some by (simp add: category_iteration_def)
  next
    case False
    note ne = this
    show ?thesis
    proof (cases "old_category_name_to_new_category_id_map m (canon raw)")
      case (Some v)
      then show ?thesis using inv ne \<open>x = Some raw\<close>
        by (simp add: category_iteration_def normalize_nonempty Let_def dom_def)
    next
      case None
      note cc = create_category_inv[OF inv None]
      have it: "snd (category_iteration pc m x) =
          (if (pc + 1) mod BATCH_SIZE = 0 then commit_or_rollback (create_category m raw (canon raw))
           else create_category m raw (canon raw))"
        using None ne \<open>x = Some raw\<close>
        by (simp add: category_iteration_def normalize_nonempty Let_def dom_def)
      show ?thesis
        using cc cat_inv_commit(1,2)[of "create_category m raw (canon raw)"] \<open>x = Some raw\<close>
        unfolding it by auto
    qed
  qed
qed

lemma categories_loop_inv:
  "cat_inv m \<Longrightarrow>
     cat_inv (categories_loop pc m names)
   \<and> (\<forall>k v. old_category_name_to_new_category_id_map m k = Some v \<longrightarrow>
          old_category_name_to_new_category_id_map (categories_loop pc m names) k = Some v)
   \<and> (\<forall>raw. Some raw \<in> set names \<and> raw \<noteq> [] \<longrightarrow>
          old_category_name_to_new_category_id_map (categories_loop pc m names) (canon raw) \<noteq> None)"
proof (induction names arbitrary: pc m)
  case Nil
  then show ?case by simp
next
  case (Cons x names)
  obtain pc' m' where it: "category_iteration pc m x = (pc', m')" by (cases "category_iteration pc m x")
  have step: "cat_inv m'"
    "\<forall>k v. old_category_name_to_new_category_id_map m k = Some v \<longrightarrow>
              old_category_name_to_new_category_id_map m' k = Some v"
    "\<forall>raw. x = Some raw \<and> raw \<noteq> [] \<longrightarrow> old_category_name_to_new_category_id_map m' (canon raw) \<noteq> None"
  proof -
    have s: "snd (category_iteration pc m x) = m'" using it by simp
    show "cat_inv m'"
      "\<forall>k v. old_category_name_to_new_category_id_map m k = Some v \<longrightarrow>
              old_category_name_to_new_category_id_map m' k = Some v"
      "\<forall>raw. x = Some raw \<and> raw \<noteq> [] \<longrightarrow> old_category_name_to_new_category_id_map m' (canon raw) \<noteq> None"
      using category_iteration_inv[OF Cons.prems, of pc x] unfolding s by blast+
  qed
  note ih = Cons.IH[OF step(1), of pc']
  have loop: "categories_loop pc m (x # names) = categories_loop pc' m' names"
    using it by simp
  show ?case unfolding loop
  proof (intro conjI allI impI)
    show "cat_inv (categories_loop pc' m' names)" using ih by simp
  next
    fix k v assume "old_category_name_to_new_category_id_map m k = Some v"
    then show "old_category_name_to_new_category_id_map (categories_loop pc' m' names) k = Some v"
      using step(2) ih by blast
  next
    fix raw assume a: "Some raw \<in> set (x # names) \<and> raw \<noteq> []"
    show "old_category_name_to_new_category_id_map (categories_loop pc' m' names) (canon raw) \<noteq> None"
    proof (cases "x = Some raw")
      case True
      then obtain v where "old_category_name_to_new_category_id_map m' (canon raw) = Some v"
        using step(3) a by auto
      then show ?thesis using ih by auto
    next
      case False
      then show ?thesis using a ih by auto
    qed
  qed
qed

lemma start_inv:
  "old_category_name_to_new_category_id_map m = Map.empty \<Longrightarrow> nothing_pending (new_db m) \<Longrightarrow> cat_inv m"
  by (simp add: cat_inv_def category_map_ok_def)


subsection \<open>Stage 1: the category identity map\<close>


lemma first_forms_Nil [simp]: "first_forms seen [] = {}"
  by (simp add: first_forms_def)










subsection \<open>Stage 4: an order whose product is not resolved\<close>

text \<open>
  Claim C1 fails on the code. The legacy order 2 of user \<open>alice\<close> names the product
  \<open>"Ghost"\<close>, which is not in the name-to-product dictionary. The script has already
  flushed the \<open>Order\<close> row when it looks the product up; \<open>expunge\<close> does not take the row
  out of the transaction, and the rollback is only done when \<open>processed_count\<close> is a
  multiple of the batch size. The final commit makes the order durable, without items,
  although the log says that the order was not migrated.
\<close>

theorem ghost_order_committed_without_items:
  "old_product_name_to_new_product_id_map ghost_run ''Ghost'' = None
   \<and> map o_user_id (orders (committed (new_db ghost_run))) = [1]
   \<and> order_items (committed (new_db ghost_run)) = []
   \<and> log ghost_run = [RegistrationDateDefaulted 1, OrderDateDefaulted 2,
                       OrderProductNotFound 2, OrderNotMigrated 2]"
  by code_simp

subsection \<open>Stage 4: an order without a user or without an address\<close>

lemma users_by_username_None:
  "users_by_username s name = None \<longleftrightarrow> name \<notin> set (map u_username (users (working s)))"
  by (simp add: users_by_username_def map_of_eq_None_iff image_image)

lemma lookup_opt_None:
  "(\<forall>u \<in> set (users (working s0)). ident \<noteq> Some (u_username u)) \<Longrightarrow>
     lookup_opt (users_by_username s0) ident = None"
  by (cases ident) (auto simp: lookup_opt_def users_by_username_None)

lemma orders_loop_append:
  "orders_loop env by_name pc m (xs @ ys) =
     orders_loop env by_name (pc + length xs) (orders_loop env by_name pc m xs) ys"
  by (induction xs arbitrary: pc m) simp_all

lemma order_iteration_no_user:
  "lookup_opt by_name (oo_user_identifier_text old_order) = None \<Longrightarrow>
     order_iteration env by_name pc m old_order =
       m\<lparr>log := log m @ [OrderUserNotFound (oo_id old_order) (oo_user_identifier_text old_order)]\<rparr>"
  by (simp add: order_iteration_def logged_def)

lemma order_iteration_no_address:
  "lookup_opt by_name (oo_user_identifier_text old_order) = Some u \<Longrightarrow>
   \<forall>a \<in> set (addresses (working (new_db m))). a_user_id a \<noteq> u_id u \<Longrightarrow>
     order_iteration env by_name pc m old_order =
       m\<lparr>log := log m @ [OrderUserWithoutAddress (u_id u) (oo_id old_order)]\<rparr>"
proof -
  assume l: "lookup_opt by_name (oo_user_identifier_text old_order) = Some u"
    and "\<forall>a \<in> set (addresses (working (new_db m))). a_user_id a \<noteq> u_id u"
  then have "filter (\<lambda>a. a_user_id a = u_id u) (addresses (working (new_db m))) = []"
    by (auto simp: filter_empty_conv)
  then show ?thesis using l by (simp add: order_iteration_def logged_def Let_def)
qed

text \<open>
  Claim C9. Take the orders loop at any point: any state of the run \<open>m\<close>, any value of
  \<open>processed_count\<close> and any legacy orders \<open>earlier\<close> processed before. If the user
  identifier of the next legacy order is not the username of any user that was in the
  target store when the stage built its username dictionary, or if it is and the
  matched user has no address in the target store, then processing that order changes
  nothing but the log, to which it adds exactly one entry, the skip with the legacy
  identifier: the session (its committed rows, the rows of the open transaction and
  the objects not yet flushed) and the dictionaries are as they were.
\<close>

theorem order_without_user_or_address_skipped:
  "((\<forall>u \<in> set (users (working at_start)). oo_user_identifier_text old_order \<noteq> Some (u_username u)) \<longrightarrow>
      orders_loop env (users_by_username at_start) processed_count m (earlier @ [old_order]) =
        (orders_loop env (users_by_username at_start) processed_count m earlier)
          \<lparr>log := log (orders_loop env (users_by_username at_start) processed_count m earlier)
                    @ [OrderUserNotFound (oo_id old_order) (oo_user_identifier_text old_order)]\<rparr>)
   \<and> (lookup_opt (users_by_username at_start) (oo_user_identifier_text old_order) = Some u
        \<and> (\<forall>a \<in> set (addresses (working (new_db
                 (orders_loop env (users_by_username at_start) processed_count m earlier)))).
              a_user_id a \<noteq> u_id u) \<longrightarrow>
      orders_loop env (users_by_username at_start) processed_count m (earlier @ [old_order]) =
        (orders_loop env (users_by_username at_start) processed_count m earlier)
          \<lparr>log := log (orders_loop env (users_by_username at_start) processed_count m earlier)
                    @ [OrderUserWithoutAddress (u_id u) (oo_id old_order)]\<rparr>)"
  by (simp add: orders_loop_append order_iteration_no_user order_iteration_no_address lookup_opt_None)

theorem order_without_user_or_address_skipped_witness:
  "orders_loop (sample_env 100) (users_by_username (new_db ready_for_orders)) 0 ready_for_orders
       ([widget_order] @ [mallory_order]) =
     (orders_loop (sample_env 100) (users_by_username (new_db ready_for_orders)) 0 ready_for_orders
        [widget_order])
       \<lparr>log := log (orders_loop (sample_env 100) (users_by_username (new_db ready_for_orders)) 0
                     ready_for_orders [widget_order])
                @ [OrderUserNotFound 3 (Some ''mallory'')]\<rparr>
   \<and> orders_loop (sample_env 100) (users_by_username (new_db ready_for_orders)) 0 ready_for_orders
       ([widget_order] @ [dave_order]) =
     (orders_loop (sample_env 100) (users_by_username (new_db ready_for_orders)) 0 ready_for_orders
        [widget_order])
       \<lparr>log := log (orders_loop (sample_env 100) (users_by_username (new_db ready_for_orders)) 0
                     ready_for_orders [widget_order])
                @ [OrderUserWithoutAddress 2 4]\<rparr>
   \<and> length (orders (working (new_db (orders_loop (sample_env 100)
         (users_by_username (new_db ready_for_orders)) 0 ready_for_orders [widget_order])))) = 1"
proof -
  let ?by = "users_by_username (new_db ready_for_orders)"
  let ?before = "orders_loop (sample_env 100) ?by 0 ready_for_orders [widget_order]"
  have h1: "\<forall>u \<in> set (users (working (new_db ready_for_orders))).
              oo_user_identifier_text mallory_order \<noteq> Some (u_username u)"
    by code_simp
  define u where "u = the (lookup_opt ?by (oo_user_identifier_text dave_order))"
  have h2: "lookup_opt ?by (oo_user_identifier_text dave_order) = Some u
        \<and> (\<forall>a \<in> set (addresses (working (new_db ?before))). a_user_id a \<noteq> u_id u)"
    unfolding u_def by code_simp
  have ids: "oo_id mallory_order = 3" "oo_user_identifier_text mallory_order = Some ''mallory''"
    "oo_id dave_order = 4" "u_id u = 2"
    unfolding u_def by code_simp+
  have n: "length (orders (working (new_db ?before))) = 1"
    by code_simp
  note t = order_without_user_or_address_skipped
  from t[where env = "sample_env 100" and processed_count = 0 and m = ready_for_orders
            and earlier = "[widget_order]", THEN conjunct1, THEN mp, OF h1]
       t[THEN conjunct2, THEN mp, OF h2]
  show ?thesis using n unfolding ids by simp
qed

subsection \<open>What a stage leaves untouched\<close>

lemma rollback_simps [simp]:
  "working (rollback s) = committed s"
  "committed (rollback s) = committed s"
  "new_addresses (rollback s) = []"
  "new_items (rollback s) = []"
  by (simp_all add: rollback_def)

lemma map_product_simps [simp]:
  "new_db (map_product m old_product new_product) = new_db m"
  "log (map_product m old_product new_product) = log m"
  "old_category_name_to_new_category_id_map (map_product m old_product new_product) =
     old_category_name_to_new_category_id_map m"
  by (simp_all add: map_product_def)

lemma order_except_rollback:
  "new_db (order_except e m old_order) = rollback (new_db m)"
  by (simp add: order_except_def)

lemma keeps_refl [simp]: "keeps f s s"
  by (simp add: keeps_def)

lemma keeps_trans: "keeps f s s1 \<Longrightarrow> keeps f s1 s2 \<Longrightarrow> keeps f s s2"
  by (simp add: keeps_def)

lemma settled_keeps: "settled f s \<Longrightarrow> keeps f s s' \<Longrightarrow> settled f s'"
  by (simp add: keeps_def settled_def)

lemma keeps_rollback: "settled f s \<Longrightarrow> keeps f s (rollback s)"
  by (simp add: keeps_def settled_def rollback_def)

lemma keeps_add_item [simp]: "keeps f s (add_item s it)"
  by (simp add: keeps_def add_item_def)

lemma keeps_insert_order:
  assumes "\<And>w x. f (w\<lparr>orders := x\<rparr>) = f w" "insert_order s ord = Inr (s1, row)"
  shows "keeps f s s1"
  using assms by (auto simp: insert_order_def Let_def keeps_def split: if_splits)

lemma keeps_insert_item:
  assumes "\<And>w x. f (w\<lparr>order_items := x\<rparr>) = f w" "insert_item s it = Inr s1"
  shows "keeps f s s1"
  using assms by (auto simp: insert_item_def Let_def keeps_def split: if_splits)

lemma keeps_insert_items:
  assumes "\<And>w x. f (w\<lparr>order_items := x\<rparr>) = f w"
  shows "insert_items s its = Inr s1 \<Longrightarrow> keeps f s s1"
proof (induction its arbitrary: s)
  case Nil
  then show ?case by simp
next
  case (Cons it its)
  then obtain s' where s': "insert_item s it = Inr s'" "insert_items s' its = Inr s1"
    by (auto split: sum.splits)
  show ?case
    using keeps_trans[OF keeps_insert_item[OF assms s'(1)] Cons.IH[OF s'(2)]] .
qed

lemma keeps_insert_product:
  assumes "\<And>w x. f (w\<lparr>products := x\<rparr>) = f w" "insert_product s p = Inr (s1, row)"
  shows "keeps f s s1"
  using assms by (auto simp: insert_product_def Let_def keeps_def split: if_splits)

lemma keeps_insert_category:
  assumes "\<And>w x. f (w\<lparr>product_categories := x\<rparr>) = f w" "insert_category s c = Inr (s1, row)"
  shows "keeps f s s1"
  using assms by (auto simp: insert_category_def Let_def keeps_def split: if_splits)

lemma keeps_flush:
  assumes "\<And>w x. f (w\<lparr>order_items := x\<rparr>) = f w" "new_addresses s = []" "flush s = Inr s1"
  shows "keeps f s s1"
proof -
  from assms(2,3) obtain s2 where s2: "insert_items s (new_items s) = Inr s2"
    "s1 = s2\<lparr>new_addresses := [], new_items := []\<rparr>"
    by (auto simp: flush_def split: sum.splits)
  have "keeps f s s2" using keeps_insert_items[OF assms(1) s2(1)] .
  then show ?thesis using assms(2) s2(2) by (simp add: keeps_def)
qed

lemma keeps_commit:
  assumes "\<And>w x. f (w\<lparr>order_items := x\<rparr>) = f w" "settled f s" "commit s = Inr s1"
  shows "keeps f s s1"
proof -
  from assms(3) obtain s2 where s2: "flush s = Inr s2" "s1 = s2\<lparr>committed := working s2\<rparr>"
    by (auto simp: commit_def split: sum.splits)
  have "keeps f s s2" using keeps_flush[OF assms(1) _ s2(1)] assms(2) by (simp add: settled_def)
  then show ?thesis using assms(2) s2(2) by (simp add: keeps_def settled_def)
qed

lemma keeps_commit_or_rollback:
  assumes "\<And>w x. f (w\<lparr>order_items := x\<rparr>) = f w" "settled f (new_db m)"
  shows "keeps f (new_db m) (new_db (commit_or_rollback m))"
proof (cases "commit (new_db m)")
  case (Inl e)
  then show ?thesis using keeps_rollback[OF assms(2)] by (simp add: commit_or_rollback_def)
next
  case (Inr s1)
  then show ?thesis using keeps_commit[OF assms Inr] by (simp add: commit_or_rollback_def)
qed

lemma keeps_add_flush_order:
  assumes "\<And>w x. f (w\<lparr>orders := x\<rparr>) = f w" "\<And>w x. f (w\<lparr>order_items := x\<rparr>) = f w"
    "new_addresses s = []" "add_flush_order s ord = Inr (s1, row)"
  shows "keeps f s s1"
proof -
  from assms(4) obtain s2 where s2: "insert_order s ord = Inr (s2, row)" "flush s2 = Inr s1"
    by (auto simp: add_flush_order_def split: sum.splits prod.splits)
  have k: "keeps f s s2" using keeps_insert_order[OF assms(1) s2(1)] .
  then have "new_addresses s2 = []" using assms(3) by (simp add: keeps_def)
  from keeps_trans[OF k keeps_flush[OF assms(2) this s2(2)]] show ?thesis .
qed

lemma keeps_add_flush_product:
  assumes "\<And>w x. f (w\<lparr>products := x\<rparr>) = f w" "\<And>w x. f (w\<lparr>order_items := x\<rparr>) = f w"
    "new_addresses s = []" "add_flush_product s p = Inr (s1, row)"
  shows "keeps f s s1"
proof -
  from assms(4) obtain s2 where s2: "insert_product s p = Inr (s2, row)" "flush s2 = Inr s1"
    by (auto simp: add_flush_product_def split: sum.splits prod.splits)
  have k: "keeps f s s2" using keeps_insert_product[OF assms(1) s2(1)] .
  then have "new_addresses s2 = []" using assms(3) by (simp add: keeps_def)
  from keeps_trans[OF k keeps_flush[OF assms(2) this s2(2)]] show ?thesis .
qed

lemma keeps_add_flush_category:
  assumes "\<And>w x. f (w\<lparr>product_categories := x\<rparr>) = f w" "\<And>w x. f (w\<lparr>order_items := x\<rparr>) = f w"
    "new_addresses s = []" "add_flush_category s c = Inr (s1, row)"
  shows "keeps f s s1"
proof -
  from assms(4) obtain s2 where s2: "insert_category s c = Inr (s2, row)" "flush s2 = Inr s1"
    by (auto simp: add_flush_category_def split: sum.splits prod.splits)
  have k: "keeps f s s2" using keeps_insert_category[OF assms(1) s2(1)] .
  then have "new_addresses s2 = []" using assms(3) by (simp add: keeps_def)
  from keeps_trans[OF k keeps_flush[OF assms(2) this s2(2)]] show ?thesis .
qed

lemma keeps_order_except:
  "settled f (new_db m) \<Longrightarrow> keeps f (new_db m) (new_db (order_except e m old_order))"
  by (simp add: order_except_rollback keeps_rollback)

lemma keeps_create_item:
  assumes i: "\<And>w x. f (w\<lparr>order_items := x\<rparr>) = f w" and st: "settled f (new_db m)"
  shows "keeps f (new_db m) (new_db (create_item pc m old_order new_order))"
proof (cases "falsy_id (lookup_opt (old_product_name_to_new_product_id_map m)
                             (oo_product_name_redundant old_order))")
  case True
  then show ?thesis using keeps_rollback[OF st]
    by (simp add: create_item_def Let_def expunge_def)
next
  case False
  then obtain pid where pid: "lookup_opt (old_product_name_to_new_product_id_map m)
                             (oo_product_name_redundant old_order) = Some pid"
    by (auto simp: falsy_id_def split: option.splits)
  define m1 where "m1 = (case extract_price_decimal (oo_unit_price_str_redundant old_order) of
                           Some d \<Rightarrow> m | None \<Rightarrow> logged m (UnitPriceInvalid (oo_id old_order)))"
  have db1: "new_db m1 = new_db m" by (simp add: m1_def split: option.split)
  define it where "it = \<lparr>i_id = 0, i_order_id = o_id new_order, i_product_id = pid,
       i_quantity = (case oo_quantity old_order of Some q \<Rightarrow> if q \<noteq> 0 \<and> q > 0 then q else 1 | None \<Rightarrow> 1),
       i_unit_price_at_purchase =
         (case extract_price_decimal (oo_unit_price_str_redundant old_order) of
            Some d \<Rightarrow> d | None \<Rightarrow> zero_price)\<rparr>"
  define m2 where "m2 = m1\<lparr>new_db := add_item (new_db m1) it\<rparr>"
  have k2: "keeps f (new_db m) (new_db m2)" by (simp add: m2_def db1)
  have st2: "settled f (new_db m2)" using settled_keeps[OF st k2] .
  have ci: "create_item pc m old_order new_order =
      (if pc mod BATCH_SIZE = 0
       then (case commit (new_db m2) of Inl e \<Rightarrow> order_except e m2 old_order
             | Inr s \<Rightarrow> m2\<lparr>new_db := s\<rparr>)
       else m2)"
    using False pid
    by (simp add: create_item_def Let_def m1_def m2_def it_def
          cong: sum.case_cong option.case_cong if_cong)
  show ?thesis
  proof (cases "pc mod BATCH_SIZE = 0")
    case False
    then show ?thesis using k2 by (simp add: ci)
  next
    case True
    show ?thesis
    proof (cases "commit (new_db m2)")
      case (Inl e)
      then show ?thesis using True keeps_trans[OF k2 keeps_order_except[OF st2]] by (simp add: ci)
    next
      case (Inr s)
      then show ?thesis using True keeps_trans[OF k2 keeps_commit[OF i st2 Inr]] by (simp add: ci)
    qed
  qed
qed

lemma keeps_order_iteration:
  assumes o: "\<And>w x. f (w\<lparr>orders := x\<rparr>) = f w" and i: "\<And>w x. f (w\<lparr>order_items := x\<rparr>) = f w"
    and st: "settled f (new_db m)"
  shows "keeps f (new_db m) (new_db (order_iteration env by_name pc m old_order))"
proof (cases "lookup_opt by_name (oo_user_identifier_text old_order)")
  case None
  then show ?thesis by (simp add: order_iteration_def)
next
  case (Some u)
  show ?thesis
  proof (cases "find (\<lambda>x. u_id x = u_id u) (users (working (new_db m))) = None
                \<or> filter (\<lambda>a. a_user_id a = u_id u) (addresses (working (new_db m))) = []")
    case True
    then show ?thesis using Some by (auto simp: order_iteration_def Let_def)
  next
    case False
    define m0 where "m0 = (case parse_datetime_flexible (strptime env) (oo_order_date_str old_order)
                     order_date_formats of Some d \<Rightarrow> m
                | None \<Rightarrow> logged m (OrderDateDefaulted (oo_id old_order)))"
    have db0: "new_db m0 = new_db m" by (simp add: m0_def split: option.split)
    have st0: "settled f (new_db m0)" using st by (simp add: db0)
    define user_addresses where
      "user_addresses = filter (\<lambda>a. a_user_id a = u_id u) (addresses (working (new_db m)))"
    define shipping_address where
      "shipping_address = (case find a_is_default_shipping user_addresses of
                             Some a \<Rightarrow> a | None \<Rightarrow> hd user_addresses)"
    define new_order where
      "new_order = \<lparr>o_id = 0, o_user_id = u_id u,
          o_order_date = (case parse_datetime_flexible (strptime env) (oo_order_date_str old_order)
                            order_date_formats of Some d \<Rightarrow> d | None \<Rightarrow> now env),
          o_status = map_order_status (oo_status_text old_order),
          o_shipping_address_id = a_id shipping_address,
          o_billing_address_id = a_id (case find a_is_default_billing user_addresses of
                                         Some a \<Rightarrow> a | None \<Rightarrow> shipping_address)\<rparr>"
    have it: "order_iteration env by_name pc m old_order =
        (case add_flush_order (new_db m0) new_order of
           Inl e \<Rightarrow> order_except e m0 old_order
         | Inr (s1, new_order_row) \<Rightarrow> create_item pc (m0\<lparr>new_db := s1\<rparr>) old_order new_order_row)"
    proof -
      from False obtain y where y: "find (\<lambda>x. u_id x = u_id u) (users (working (new_db m))) = Some y"
        and ne: "filter (\<lambda>a. a_user_id a = u_id u) (addresses (working (new_db m))) \<noteq> []"
        by auto
      show ?thesis
        by (simp add: order_iteration_def Let_def m0_def new_order_def shipping_address_def
              user_addresses_def Some y ne cong: sum.case_cong option.case_cong if_cong)
    qed
    show ?thesis
    proof (cases "add_flush_order (new_db m0) new_order")
      case (Inl e)
      then show ?thesis using keeps_order_except[OF st0] by (simp add: it db0)
    next
      case (Inr r)
      obtain s1 row where r: "r = (s1, row)" by (cases r)
      have k1: "keeps f (new_db m) s1"
        using keeps_add_flush_order[OF o i _ Inr[unfolded r]] st by (simp add: db0 settled_def)
      have "settled f (new_db (m0\<lparr>new_db := s1\<rparr>))" using settled_keeps[OF st k1] by simp
      from keeps_create_item[OF i this, of pc old_order row]
      show ?thesis using Inr r keeps_trans[OF k1] by (simp add: it)
    qed
  qed
qed

lemma keeps_orders_loop:
  assumes o: "\<And>w x. f (w\<lparr>orders := x\<rparr>) = f w" and i: "\<And>w x. f (w\<lparr>order_items := x\<rparr>) = f w"
  shows "settled f (new_db m) \<Longrightarrow> keeps f (new_db m) (new_db (orders_loop env by_name pc m os))"
proof (induction os arbitrary: pc m)
  case Nil
  then show ?case by simp
next
  case (Cons x os)
  note k = keeps_order_iteration[OF o i Cons.prems, of env by_name "pc + 1" x]
  from keeps_trans[OF k Cons.IH[OF settled_keeps[OF Cons.prems k]]] show ?case by simp
qed

lemma keeps_migrate_orders_and_items:
  assumes o: "\<And>w x. f (w\<lparr>orders := x\<rparr>) = f w" and i: "\<And>w x. f (w\<lparr>order_items := x\<rparr>) = f w"
    and st: "settled f (new_db m)"
  shows "keeps f (new_db m) (new_db (migrate_orders_and_items env old_db m))"
proof -
  note k = keeps_orders_loop[OF o i st, of env "users_by_username (new_db m)" 0 "old_orders old_db"]
  from keeps_trans[OF k keeps_commit_or_rollback[OF i settled_keeps[OF st k]]]
  show ?thesis by (simp add: migrate_orders_and_items_def)
qed

lemma nothing_pending_rollback [simp]: "nothing_pending (rollback s)"
  by (simp add: nothing_pending_def)

lemma add_flush_product_np:
  "nothing_pending s \<Longrightarrow> add_flush_product s p = Inr (s1, row) \<Longrightarrow> nothing_pending s1"
  by (auto simp: add_flush_product_def insert_product_def Let_def flush_def nothing_pending_def
      split: if_splits sum.splits)

lemma add_flush_category_np:
  "nothing_pending s \<Longrightarrow> add_flush_category s c = Inr (s1, row) \<Longrightarrow> nothing_pending s1"
  by (auto simp: add_flush_category_def insert_category_def Let_def flush_def nothing_pending_def
      split: if_splits sum.splits)

lemma commit_np:
  "nothing_pending s \<Longrightarrow> commit s = Inr s1 \<Longrightarrow> nothing_pending s1"
  by (auto simp: commit_nothing_pending nothing_pending_def)

lemma product_except_db:
  "new_db (product_except e m old_product sku) = rollback (new_db m)"
  by (simp add: product_except_def Let_def split: option.split)

lemma product_iteration_parts:
  "\<exists>m0 new_product. new_db m0 = new_db m
      \<and> old_category_name_to_new_category_id_map m0 = old_category_name_to_new_category_id_map m
      \<and> product_iteration env pc m old_product =
          (case resolve_category m0 old_product of
             (m1, None) \<Rightarrow> m1
           | (m1, Some cid) \<Rightarrow> insert_product_part env pc m1 old_product (new_product cid))"
proof -
  define m0 where "m0 = (case extract_price_decimal (op_price_str old_product) of Some d \<Rightarrow> m
                | None \<Rightarrow> logged m (PriceInvalid (op_id old_product)))"
  define new_product where "new_product = (\<lambda>cid.
      \<lparr>p_id = 0, p_name = op_product_name old_product,
       p_description = op_description old_product,
       p_price = (case extract_price_decimal (op_price_str old_product) of
                    Some d \<Rightarrow> d | None \<Rightarrow> zero_price),
       p_sku = generate_sku (op_id old_product) (sku_draw env pc),
       p_stock_quantity = stock_draw env pc,
       p_category_id = cid,
       p_created_at = (case parse_datetime_flexible (strptime env) (op_created_at_str old_product)
                              date_formats of Some d \<Rightarrow> d | None \<Rightarrow> now env),
       p_updated_at = (case parse_datetime_flexible (strptime env) (op_created_at_str old_product)
                              date_formats of Some d \<Rightarrow> d | None \<Rightarrow> now env)\<rparr>)"
  have "new_db m0 = new_db m"
    "old_category_name_to_new_category_id_map m0 = old_category_name_to_new_category_id_map m"
    by (simp_all add: m0_def split: option.split)
  moreover have "product_iteration env pc m old_product =
          (case resolve_category m0 old_product of
             (m1, None) \<Rightarrow> m1
           | (m1, Some cid) \<Rightarrow> insert_product_part env pc m1 old_product (new_product cid))"
    by (simp add: product_iteration_def insert_product_part_def Let_def m0_def new_product_def
          cong: sum.case_cong option.case_cong if_cong prod.case_cong)
  ultimately show ?thesis by blast
qed

lemma insert_product_part_keeps:
  assumes p: "\<And>w x. f (w\<lparr>products := x\<rparr>) = f w" and i: "\<And>w x. f (w\<lparr>order_items := x\<rparr>) = f w"
    and st: "settled f (new_db m1)"
  shows "keeps f (new_db m1) (new_db (insert_product_part env pc m1 old_product new_product))"
proof (cases "add_flush_product (new_db m1) new_product")
  case (Inl e)
  then show ?thesis using keeps_rollback[OF st]
    by (simp add: insert_product_part_def product_except_db)
next
  case (Inr r)
  obtain s1 row where r: "r = (s1, row)" by (cases r)
  have k1: "keeps f (new_db m1) s1"
    using keeps_add_flush_product[OF p i _ Inr[unfolded r]] st by (simp add: settled_def)
  have st1: "settled f s1" using settled_keeps[OF st k1] .
  show ?thesis
  proof (cases "pc mod BATCH_SIZE = 0")
    case False
    then show ?thesis using Inr r k1 by (simp add: insert_product_part_def Let_def)
  next
    case True
    show ?thesis
    proof (cases "commit s1")
      case (Inl e)
      then show ?thesis using True Inr r keeps_trans[OF k1 keeps_rollback[OF st1]]
        by (simp add: insert_product_part_def Let_def product_except_db)
    next
      case c: (Inr s2)
      then show ?thesis using True Inr r keeps_trans[OF k1 keeps_commit[OF i st1 c]]
        by (simp add: insert_product_part_def Let_def)
    qed
  qed
qed

lemma insert_product_part_np:
  assumes "nothing_pending (new_db m1)"
  shows "nothing_pending (new_db (insert_product_part env pc m1 old_product new_product))"
proof (cases "add_flush_product (new_db m1) new_product")
  case (Inl e)
  then show ?thesis by (simp add: insert_product_part_def product_except_db)
next
  case (Inr r)
  obtain s1 row where r: "r = (s1, row)" by (cases r)
  have np1: "nothing_pending s1" using add_flush_product_np[OF assms Inr[unfolded r]] .
  then show ?thesis using Inr r
    by (simp add: insert_product_part_def Let_def commit_nothing_pending nothing_pending_def)
qed

lemma insert_product_part_map [simp]:
  "old_category_name_to_new_category_id_map (insert_product_part env pc m1 old_product new_product)
     = old_category_name_to_new_category_id_map m1"
  by (simp add: insert_product_part_def Let_def product_except_def
      split: sum.split prod.split option.split)

lemma resolve_category_resolved:
  "\<not> falsy_id (old_category_name_to_new_category_id_map m
        (normalize_category_name (op_category_name_redundant old_product))) \<Longrightarrow>
   resolve_category m old_product =
     (m, old_category_name_to_new_category_id_map m
           (normalize_category_name (op_category_name_redundant old_product)))"
  by (simp add: resolve_category_def Let_def)

lemma resolve_category_keeps:
  assumes c: "\<And>w x. f (w\<lparr>product_categories := x\<rparr>) = f w"
    and i: "\<And>w x. f (w\<lparr>order_items := x\<rparr>) = f w"
    and st: "settled f (new_db m)"
  shows "keeps f (new_db m) (new_db (fst (resolve_category m old_product)))"
proof (cases "falsy_id (old_category_name_to_new_category_id_map m
        (normalize_category_name (op_category_name_redundant old_product)))")
  case False
  then show ?thesis by (simp add: resolve_category_resolved)
next
  case True
  show ?thesis
  proof (cases "old_category_name_to_new_category_id_map m ''Unknown''")
    case (Some u)
    then show ?thesis using True by (simp add: resolve_category_def Let_def)
  next
    case None
    let ?c = "\<lparr>c_id = 0, c_name = ''Unknown'', c_description = Some default_category_description\<rparr>"
    show ?thesis
    proof (cases "add_flush_category (new_db m) ?c")
      case (Inl e)
      then show ?thesis using True None keeps_rollback[OF st]
        by (simp add: resolve_category_def Let_def)
    next
      case (Inr r)
      obtain s1 row where r: "r = (s1, row)" by (cases r)
      have k1: "keeps f (new_db m) s1"
        using keeps_add_flush_category[OF c i _ Inr[unfolded r]] st by (simp add: settled_def)
      have st1: "settled f s1" using settled_keeps[OF st k1] .
      show ?thesis
      proof (cases "commit s1")
        case (Inl e)
        then show ?thesis using True None Inr r keeps_trans[OF k1 keeps_rollback[OF st1]]
          by (simp add: resolve_category_def Let_def)
      next
        case c2: (Inr s2)
        then show ?thesis using True None Inr r keeps_trans[OF k1 keeps_commit[OF i st1 c2]]
          by (simp add: resolve_category_def Let_def)
      qed
    qed
  qed
qed

lemma add_flush_category_name_taken:
  "c_name c \<in> set (map c_name (product_categories (working s))) \<Longrightarrow>
     add_flush_category s c = Inl IntegrityError"
  by (simp add: add_flush_category_def insert_category_def Let_def)

lemma resolve_category_unknown_exists:
  assumes st: "settled product_categories (new_db m)"
    and u: "''Unknown'' \<in> set (map c_name (product_categories (working (new_db m))))"
  shows "keeps product_categories (new_db m) (new_db (fst (resolve_category m old_product)))"
proof (cases "falsy_id (old_category_name_to_new_category_id_map m
        (normalize_category_name (op_category_name_redundant old_product)))")
  case False
  then show ?thesis by (simp add: resolve_category_resolved)
next
  case True
  show ?thesis
  proof (cases "old_category_name_to_new_category_id_map m ''Unknown''")
    case (Some u)
    then show ?thesis using True by (simp add: resolve_category_def Let_def)
  next
    case None
    have "add_flush_category (new_db m)
            \<lparr>c_id = 0, c_name = ''Unknown'', c_description = Some default_category_description\<rparr>
          = Inl IntegrityError"
      using u by (intro add_flush_category_name_taken) simp
    then show ?thesis using True None keeps_rollback[OF st]
      by (simp add: resolve_category_def Let_def)
  qed
qed

lemma resolve_category_map_mono:
  "old_category_name_to_new_category_id_map m k = Some v \<Longrightarrow>
     old_category_name_to_new_category_id_map (fst (resolve_category m old_product)) k = Some v"
  by (auto simp: resolve_category_def Let_def split: option.split sum.split prod.split)

lemma product_iteration_keeps:
  assumes p: "\<And>w x. f (w\<lparr>products := x\<rparr>) = f w"
    and c: "\<And>w x. f (w\<lparr>product_categories := x\<rparr>) = f w"
    and i: "\<And>w x. f (w\<lparr>order_items := x\<rparr>) = f w"
    and st: "settled f (new_db m)"
  shows "keeps f (new_db m) (new_db (product_iteration env pc m old_product))"
proof -
  obtain m0 new_product where m0: "new_db m0 = new_db m"
    and it: "product_iteration env pc m old_product =
          (case resolve_category m0 old_product of
             (m1, None) \<Rightarrow> m1
           | (m1, Some cid) \<Rightarrow> insert_product_part env pc m1 old_product (new_product cid))"
    using product_iteration_parts[of m env pc old_product] by blast
  obtain m1 r where rc: "resolve_category m0 old_product = (m1, r)"
    by (cases "resolve_category m0 old_product")
  have k1: "keeps f (new_db m) (new_db m1)"
    using resolve_category_keeps[OF c i, of m0 old_product] st rc by (simp add: m0)
  show ?thesis
  proof (cases r)
    case None
    then show ?thesis using k1 rc by (simp add: it)
  next
    case (Some cid)
    from keeps_trans[OF k1 insert_product_part_keeps[OF p i settled_keeps[OF st k1]]]
    show ?thesis using rc Some by (simp add: it)
  qed
qed

lemma products_loop_keeps:
  assumes p: "\<And>w x. f (w\<lparr>products := x\<rparr>) = f w"
    and c: "\<And>w x. f (w\<lparr>product_categories := x\<rparr>) = f w"
    and i: "\<And>w x. f (w\<lparr>order_items := x\<rparr>) = f w"
  shows "settled f (new_db m) \<Longrightarrow> keeps f (new_db m) (new_db (products_loop env pc m ps))"
proof (induction ps arbitrary: pc m)
  case Nil
  then show ?case by simp
next
  case (Cons x ps)
  note k = product_iteration_keeps[OF p c i Cons.prems, of env "pc + 1" x]
  from keeps_trans[OF k Cons.IH[OF settled_keeps[OF Cons.prems k]]] show ?case by simp
qed

lemma migrate_products_keeps:
  assumes p: "\<And>w x. f (w\<lparr>products := x\<rparr>) = f w"
    and c: "\<And>w x. f (w\<lparr>product_categories := x\<rparr>) = f w"
    and i: "\<And>w x. f (w\<lparr>order_items := x\<rparr>) = f w"
    and st: "settled f (new_db m)"
  shows "keeps f (new_db m) (new_db (migrate_products env old_db m))"
proof -
  note k = products_loop_keeps[OF p c i st, of env 0 "old_products old_db"]
  from keeps_trans[OF k keeps_commit_or_rollback[OF i settled_keeps[OF st k]]]
  show ?thesis by (simp add: migrate_products_def)
qed

text \<open>Categories in the products stage when the default category already exists.\<close>

lemma product_iteration_unknown_exists:
  assumes st: "settled product_categories (new_db m)"
    and u: "''Unknown'' \<in> set (map c_name (product_categories (working (new_db m))))"
  shows "keeps product_categories (new_db m) (new_db (product_iteration env pc m old_product))"
proof -
  obtain m0 new_product where m0: "new_db m0 = new_db m"
    and it: "product_iteration env pc m old_product =
          (case resolve_category m0 old_product of
             (m1, None) \<Rightarrow> m1
           | (m1, Some cid) \<Rightarrow> insert_product_part env pc m1 old_product (new_product cid))"
    using product_iteration_parts[of m env pc old_product] by blast
  obtain m1 r where rc: "resolve_category m0 old_product = (m1, r)"
    by (cases "resolve_category m0 old_product")
  have k1: "keeps product_categories (new_db m) (new_db m1)"
    using resolve_category_unknown_exists[of m0 old_product] st u rc by (simp add: m0)
  show ?thesis
  proof (cases r)
    case None
    then show ?thesis using k1 rc by (simp add: it)
  next
    case (Some cid)
    have "keeps product_categories (new_db m1)
            (new_db (insert_product_part env pc m1 old_product (new_product cid)))"
      by (rule insert_product_part_keeps[OF _ _ settled_keeps[OF st k1]]) simp_all
    from keeps_trans[OF k1 this] show ?thesis using rc Some by (simp add: it)
  qed
qed

lemma products_loop_unknown_exists:
  "settled product_categories (new_db m) \<Longrightarrow>
   ''Unknown'' \<in> set (map c_name (product_categories (working (new_db m)))) \<Longrightarrow>
   keeps product_categories (new_db m) (new_db (products_loop env pc m ps))"
proof (induction ps arbitrary: pc m)
  case Nil
  then show ?case by simp
next
  case (Cons x ps)
  note k = product_iteration_unknown_exists[OF Cons.prems, of env "pc + 1" x]
  have u: "''Unknown'' \<in> set (map c_name (product_categories (working (new_db
             (product_iteration env (pc + 1) m x)))))"
    using k Cons.prems(2) by (simp add: keeps_def)
  from keeps_trans[OF k Cons.IH[OF settled_keeps[OF Cons.prems(1) k] u]] show ?case by simp
qed

text \<open>Categories in the products stage when every product resolves its category.\<close>

lemma product_iteration_resolved:
  assumes st: "settled product_categories (new_db m)"
    and r: "\<not> falsy_id (old_category_name_to_new_category_id_map m
              (normalize_category_name (op_category_name_redundant old_product)))"
  shows "keeps product_categories (new_db m) (new_db (product_iteration env pc m old_product))"
    and "old_category_name_to_new_category_id_map (product_iteration env pc m old_product)
           = old_category_name_to_new_category_id_map m"
proof -
  obtain m0 new_product where m0: "new_db m0 = new_db m"
      "old_category_name_to_new_category_id_map m0 = old_category_name_to_new_category_id_map m"
    and it: "product_iteration env pc m old_product =
          (case resolve_category m0 old_product of
             (m1, None) \<Rightarrow> m1
           | (m1, Some cid) \<Rightarrow> insert_product_part env pc m1 old_product (new_product cid))"
    using product_iteration_parts[of m env pc old_product] by blast
  obtain cid where cid: "old_category_name_to_new_category_id_map m0
              (normalize_category_name (op_category_name_redundant old_product)) = Some cid"
    using r m0(2) by (auto simp: falsy_id_def split: option.splits)
  have rc: "resolve_category m0 old_product = (m0, Some cid)"
    using resolve_category_resolved[of m0 old_product] r cid by (simp add: m0(2))
  have it2: "product_iteration env pc m old_product =
      insert_product_part env pc m0 old_product (new_product cid)"
    by (simp add: it rc)
  have "keeps product_categories (new_db m0)
            (new_db (insert_product_part env pc m0 old_product (new_product cid)))"
    by (rule insert_product_part_keeps) (use st m0 in simp_all)
  then show "keeps product_categories (new_db m) (new_db (product_iteration env pc m old_product))"
    by (simp add: it2 m0)
  show "old_category_name_to_new_category_id_map (product_iteration env pc m old_product)
           = old_category_name_to_new_category_id_map m"
    by (simp add: it2 m0)
qed

lemma products_loop_resolved:
  "settled product_categories (new_db m) \<Longrightarrow>
   \<forall>p \<in> set ps. \<not> falsy_id (old_category_name_to_new_category_id_map m
              (normalize_category_name (op_category_name_redundant p))) \<Longrightarrow>
   keeps product_categories (new_db m) (new_db (products_loop env pc m ps))"
proof (induction ps arbitrary: pc m)
  case Nil
  then show ?case by simp
next
  case (Cons x ps)
  have r: "\<not> falsy_id (old_category_name_to_new_category_id_map m
              (normalize_category_name (op_category_name_redundant x)))"
    using Cons.prems(2) by simp
  note k = product_iteration_resolved[OF Cons.prems(1) r, of env "pc + 1"]
  have rest: "\<forall>p \<in> set ps. \<not> falsy_id (old_category_name_to_new_category_id_map
              (product_iteration env (pc + 1) m x)
              (normalize_category_name (op_category_name_redundant p)))"
    using Cons.prems(2) k(2) by simp
  from keeps_trans[OF k(1) Cons.IH[OF settled_keeps[OF Cons.prems(1) k(1)] rest]]
  show ?case by simp
qed

subsection \<open>A write failure and the open transaction\<close>

lemma logged_since_prefix:
  "log m0 = log m @ es0 \<Longrightarrow> logged_since m0 r e \<Longrightarrow> logged_since m r e"
  by (auto simp: logged_since_def)

lemma logged_since_exact:
  "log r = log m @ es \<Longrightarrow> logged_since m r e = (e \<in> set es)"
  by (auto simp: logged_since_def)

lemma insert_addresses_committed:
  "insert_addresses s as = Inr s1 \<Longrightarrow> committed s1 = committed s"
proof (induction as arbitrary: s)
  case Nil
  then show ?case by simp
next
  case (Cons a as)
  then obtain s' where s': "insert_address s a = Inr s'" "insert_addresses s' as = Inr s1"
    by (auto split: sum.splits)
  have "committed s' = committed s"
    using s'(1) by (auto simp: insert_address_def Let_def split: if_splits)
  then show ?case using Cons.IH[OF s'(2)] by simp
qed

lemma insert_items_committed:
  "insert_items s its = Inr s1 \<Longrightarrow> committed s1 = committed s"
proof (induction its arbitrary: s)
  case Nil
  then show ?case by simp
next
  case (Cons it its)
  then obtain s' where s': "insert_item s it = Inr s'" "insert_items s' its = Inr s1"
    by (auto split: sum.splits)
  have "committed s' = committed s"
    using s'(1) by (auto simp: insert_item_def Let_def split: if_splits)
  then show ?case using Cons.IH[OF s'(2)] by simp
qed

lemma flush_committed: "flush s = Inr s1 \<Longrightarrow> committed s1 = committed s"
  by (auto simp: flush_def split: sum.splits
      dest!: insert_addresses_committed insert_items_committed)

lemma add_flush_user_committed:
  "add_flush_user s u = Inr (s1, row) \<Longrightarrow> committed s1 = committed s"
  by (auto simp: add_flush_user_def insert_user_def Let_def split: sum.splits if_splits
      dest!: flush_committed)

lemma add_flush_product_committed:
  "add_flush_product s p = Inr (s1, row) \<Longrightarrow> committed s1 = committed s"
  by (auto simp: add_flush_product_def insert_product_def Let_def split: sum.splits if_splits
      dest!: flush_committed)

lemma add_flush_order_committed:
  "add_flush_order s ord = Inr (s1, row) \<Longrightarrow> committed s1 = committed s"
  by (auto simp: add_flush_order_def insert_order_def Let_def split: sum.splits if_splits
      dest!: flush_committed)

lemma add_flush_category_committed:
  "add_flush_category s c = Inr (s1, row) \<Longrightarrow> committed s1 = committed s"
  by (auto simp: add_flush_category_def insert_category_def Let_def split: sum.splits if_splits
      dest!: flush_committed)

lemma flush_Inr_nothing_pending: "flush s = Inr s1 \<Longrightarrow> nothing_pending s1"
  by (auto simp: flush_def nothing_pending_def split: sum.splits)

lemma commit_Inr:
  "commit s = Inr s1 \<Longrightarrow> committed s1 = working s1 \<and> nothing_pending s1"
  by (auto simp: commit_def nothing_pending_def split: sum.splits dest: flush_Inr_nothing_pending)

text \<open>The handlers.\<close>

lemma user_except_outcome:
  "new_db (user_except e m old_user) = rollback (new_db m)"
  "\<exists>es. log (user_except e m old_user) = log m @ es
      \<and> (UserIntegrityError (ou_id old_user) \<in> set es \<or> UserError (ou_id old_user) \<in> set es)
      \<and> (e = IntegrityError \<longrightarrow> UserIntegrityError (ou_id old_user) \<in> set es)"
  by (simp_all add: user_except_def Let_def split: option.split)

lemma product_except_outcome:
  "new_db (product_except e m old_product sku) = rollback (new_db m)"
  "\<exists>es. log (product_except e m old_product sku) = log m @ es
      \<and> (ProductIntegrityError (op_id old_product) \<in> set es
          \<or> ProductError (op_id old_product) \<in> set es)
      \<and> (e = IntegrityError \<longrightarrow> ProductIntegrityError (op_id old_product) \<in> set es)
      \<and> (e \<noteq> IntegrityError \<longrightarrow> ProductError (op_id old_product) \<in> set es)"
  by (simp_all add: product_except_def Let_def split: option.split)

lemma order_except_outcome:
  "new_db (order_except e m old_order) = rollback (new_db m)"
  "\<exists>es. log (order_except e m old_order) = log m @ es
      \<and> (OrderIntegrityError (oo_id old_order) \<in> set es \<or> OrderError (oo_id old_order) \<in> set es)
      \<and> (e = IntegrityError \<longrightarrow> OrderIntegrityError (oo_id old_order) \<in> set es)"
  by (simp_all add: order_except_def)

lemma rolled_back_rollback:
  "new_db r = rollback s \<Longrightarrow> committed s = committed (new_db m) \<Longrightarrow> rolled_back m r"
  by (simp add: rolled_back_def nothing_pending_def)

text \<open>The users loop.\<close>

lemma create_address_outcome:
  "create_address m1 row old_user = Inr m2 \<Longrightarrow>
     committed (new_db m2) = committed (new_db m1)
   \<and> (\<exists>es. log m2 = log m1 @ es \<and> set es \<subseteq> {AddressNotAvailable (ou_id old_user)})"
  by (auto simp: create_address_def add_address_def split: if_splits sum.splits)

lemma user_iteration_outcome:
  "(rolled_back m (user_iteration env pc m old_user)
      \<and> (logged_since m (user_iteration env pc m old_user) (UserIntegrityError (ou_id old_user))
         \<or> logged_since m (user_iteration env pc m old_user) (UserError (ou_id old_user))))
   \<or> (\<exists>es. log (user_iteration env pc m old_user) = log m @ es
         \<and> set es \<subseteq> {RegistrationDateDefaulted (ou_id old_user),
                        AddressNotAvailable (ou_id old_user)})"
proof -
  define m0 where "m0 = (case parse_datetime_flexible (strptime env) (ou_registration_date_str old_user)
                     reg_date_formats of Some d \<Rightarrow> m
                | None \<Rightarrow> logged m (RegistrationDateDefaulted (ou_id old_user)))"
  define new_user where "new_user =
     \<lparr>u_id = 0, u_username = ou_username old_user, u_email = ou_email old_user,
      u_full_name = ou_full_name old_user,
      u_hashed_password = ''migrated_placeholder_for_'' @ ou_username old_user,
      u_is_active = True, u_is_superuser = False,
      u_registration_date = (case parse_datetime_flexible (strptime env)
          (ou_registration_date_str old_user) reg_date_formats of Some d \<Rightarrow> d | None \<Rightarrow> now env),
      u_phone_number = ou_phone_number_str old_user\<rparr>"
  let ?r = "user_iteration env pc m old_user"
  let ?bad = "\<lambda>es. UserIntegrityError (ou_id old_user) \<in> set es \<or> UserError (ou_id old_user) \<in> set es"
  have db0: "new_db m0 = new_db m" by (simp add: m0_def split: option.split)
  obtain es0 where log0: "log m0 = log m @ es0"
    "set es0 \<subseteq> {RegistrationDateDefaulted (ou_id old_user)}"
    by (cases "parse_datetime_flexible (strptime env) (ou_registration_date_str old_user)
                     reg_date_formats") (auto simp: m0_def)
  have failed: "rolled_back m ?r \<and> (logged_since m ?r (UserIntegrityError (ou_id old_user))
         \<or> logged_since m ?r (UserError (ou_id old_user)))"
    if r: "?r = user_except e mf old_user" and c: "committed (new_db mf) = committed (new_db m)"
      and l: "log mf = log m @ esf" for e mf esf
  proof -
    obtain es where es: "log (user_except e mf old_user) = log mf @ es" "?bad es"
      using user_except_outcome(2)[of e mf old_user] by blast
    have "rolled_back m ?r"
      using rolled_back_rollback[OF _ c] user_except_outcome(1)[of e mf old_user] r by simp
    moreover have "log ?r = log m @ (esf @ es)" using es(1) l r by simp
    then have "logged_since m ?r (UserIntegrityError (ou_id old_user))
         \<or> logged_since m ?r (UserError (ou_id old_user))"
      using es(2) by (auto simp: logged_since_def)
    ultimately show ?thesis by simp
  qed
  show ?thesis
  proof (cases "add_flush_user (new_db m0) new_user")
    case (Inl e)
    have "?r = user_except e m0 old_user"
      unfolding user_iteration_def Let_def m0_def[symmetric] new_user_def[symmetric]
      using Inl by simp
    from failed[OF this _ log0(1)] show ?thesis by (simp add: db0)
  next
    case (Inr p)
    obtain s1 row where p: "p = (s1, row)" by (cases p)
    have c1: "committed s1 = committed (new_db m)"
      using add_flush_user_committed[OF Inr[unfolded p]] by (simp add: db0)
    define m1 where "m1 = m0\<lparr>new_db := s1, old_user_id_to_new_user_map :=
                           (old_user_id_to_new_user_map m0)(ou_id old_user \<mapsto> row)\<rparr>"
    have l1: "log m1 = log m @ es0" "committed (new_db m1) = committed (new_db m)"
      using log0 c1 by (simp_all add: m1_def)
    show ?thesis
    proof (cases "create_address m1 row old_user")
      case ca: (Inl e)
      have "?r = user_except e m1 old_user"
        unfolding user_iteration_def Let_def m0_def[symmetric] new_user_def[symmetric]
        using Inr p ca by (simp add: m1_def)
      from failed[OF this l1(2) l1(1)] show ?thesis by simp
    next
      case ca: (Inr m2)
      obtain es2 where m2: "committed (new_db m2) = committed (new_db m1)"
        "log m2 = log m1 @ es2" "set es2 \<subseteq> {AddressNotAvailable (ou_id old_user)}"
        using create_address_outcome[OF ca] by blast
      have l2: "log m2 = log m @ (es0 @ es2)" "committed (new_db m2) = committed (new_db m)"
        using m2 l1 by simp_all
      have it: "?r = (if pc mod BATCH_SIZE = 0
                      then (case commit (new_db m2) of
                              Inl e \<Rightarrow> user_except e m2 old_user
                            | Inr s3 \<Rightarrow> m2\<lparr>new_db := s3\<rparr>)
                      else m2)"
        unfolding user_iteration_def Let_def m0_def[symmetric] new_user_def[symmetric]
        using Inr p ca by (simp add: m1_def)
      have ok: "set (es0 @ es2) \<subseteq> {RegistrationDateDefaulted (ou_id old_user),
                        AddressNotAvailable (ou_id old_user)}"
        using log0(2) m2(3) by auto
      show ?thesis
      proof (cases "pc mod BATCH_SIZE = 0")
        case False
        then have "log ?r = log m @ (es0 @ es2)" using it l2 by simp
        then show ?thesis using ok by blast
      next
        case True
        show ?thesis
        proof (cases "commit (new_db m2)")
          case (Inl e)
          then have "?r = user_except e m2 old_user" using it True by simp
          from failed[OF this l2(2) l2(1)] show ?thesis by simp
        next
          case c: (Inr s3)
          then have "log ?r = log m @ (es0 @ es2)" using it True l2 by simp
          then show ?thesis using ok by blast
        qed
      qed
    qed
  qed
qed

lemma user_iteration_failure:
  assumes "logged_since m (user_iteration env pc m old_user) (UserIntegrityError (ou_id old_user))
         \<or> logged_since m (user_iteration env pc m old_user) (UserError (ou_id old_user))"
  shows "rolled_back m (user_iteration env pc m old_user)"
proof -
  from user_iteration_outcome[of m env pc old_user] show ?thesis
  proof
    assume "rolled_back m (user_iteration env pc m old_user)
      \<and> (logged_since m (user_iteration env pc m old_user) (UserIntegrityError (ou_id old_user))
         \<or> logged_since m (user_iteration env pc m old_user) (UserError (ou_id old_user)))"
    then show ?thesis by simp
  next
    assume "\<exists>es. log (user_iteration env pc m old_user) = log m @ es
         \<and> set es \<subseteq> {RegistrationDateDefaulted (ou_id old_user),
                        AddressNotAvailable (ou_id old_user)}"
    then obtain es where es: "log (user_iteration env pc m old_user) = log m @ es"
      "set es \<subseteq> {RegistrationDateDefaulted (ou_id old_user), AddressNotAvailable (ou_id old_user)}"
      by blast
    from assms have False
      unfolding logged_since_exact[OF es(1)] using es(2) by auto
    then show ?thesis ..
  qed
qed

lemma user_iteration_rejected:
  assumes "ou_email old_user = None
     \<or> ou_username old_user \<in> set (map u_username (users (working (new_db m))))
     \<or> ou_email old_user \<in> set (map u_email (users (working (new_db m))))"
  shows "new_db (user_iteration env pc m old_user) = rollback (new_db m)"
    and "logged_since m (user_iteration env pc m old_user) (UserIntegrityError (ou_id old_user))"
proof -
  define m0 where "m0 = (case parse_datetime_flexible (strptime env) (ou_registration_date_str old_user)
                     reg_date_formats of Some d \<Rightarrow> m
                | None \<Rightarrow> logged m (RegistrationDateDefaulted (ou_id old_user)))"
  have db0: "new_db m0 = new_db m" by (simp add: m0_def split: option.split)
  have log0: "\<exists>es0. log m0 = log m @ es0" by (simp add: m0_def split: option.split)
  have fail: "add_flush_user (new_db m0) u = Inl IntegrityError"
    if "u_username u = ou_username old_user" "u_email u = ou_email old_user" for u
    using assms that by (auto simp: add_flush_user_def insert_user_def Let_def db0)
  have it: "user_iteration env pc m old_user = user_except IntegrityError m0 old_user"
    unfolding user_iteration_def Let_def m0_def[symmetric]
    by (subst fail) simp_all
  show "new_db (user_iteration env pc m old_user) = rollback (new_db m)"
    by (simp add: it user_except_outcome db0)
  obtain es0 where "log m0 = log m @ es0" using log0 by blast
  moreover obtain es where "log (user_except IntegrityError m0 old_user) = log m0 @ es"
      "UserIntegrityError (ou_id old_user) \<in> set es"
    using user_except_outcome(2)[of IntegrityError m0 old_user] by blast
  ultimately show "logged_since m (user_iteration env pc m old_user) (UserIntegrityError (ou_id old_user))"
    by (auto simp: it logged_since_def)
qed

lemma user_iteration_username_taken:
  assumes "ou_username old_user \<in> set (map u_username (users (working (new_db m))))"
  shows "new_db (user_iteration env pc m old_user) = rollback (new_db m)"
  using user_iteration_rejected(1)[of old_user m env pc] assms by simp

text \<open>The products loop.\<close>

lemma product_iteration_split:
  "\<exists>m0 new_product es0. new_db m0 = new_db m
      \<and> old_category_name_to_new_category_id_map m0 = old_category_name_to_new_category_id_map m
      \<and> log m0 = log m @ es0 \<and> set es0 \<subseteq> {PriceInvalid (op_id old_product)}
      \<and> (\<forall>cid. p_sku (new_product cid) = generate_sku (op_id old_product) (sku_draw env pc)
             \<and> p_category_id (new_product cid) = cid
             \<and> p_price (new_product cid) =
                  (case extract_price_decimal (op_price_str old_product) of
                     Some d \<Rightarrow> d | None \<Rightarrow> zero_price))
      \<and> product_iteration env pc m old_product =
          (case resolve_category m0 old_product of
             (m1, None) \<Rightarrow> m1
           | (m1, Some cid) \<Rightarrow> insert_product_part env pc m1 old_product (new_product cid))"
proof -
  define m0 where "m0 = (case extract_price_decimal (op_price_str old_product) of Some d \<Rightarrow> m
                | None \<Rightarrow> logged m (PriceInvalid (op_id old_product)))"
  define new_product where "new_product = (\<lambda>cid.
      \<lparr>p_id = 0, p_name = op_product_name old_product,
       p_description = op_description old_product,
       p_price = (case extract_price_decimal (op_price_str old_product) of
                    Some d \<Rightarrow> d | None \<Rightarrow> zero_price),
       p_sku = generate_sku (op_id old_product) (sku_draw env pc),
       p_stock_quantity = stock_draw env pc,
       p_category_id = cid,
       p_created_at = (case parse_datetime_flexible (strptime env) (op_created_at_str old_product)
                              date_formats of Some d \<Rightarrow> d | None \<Rightarrow> now env),
       p_updated_at = (case parse_datetime_flexible (strptime env) (op_created_at_str old_product)
                              date_formats of Some d \<Rightarrow> d | None \<Rightarrow> now env)\<rparr>)"
  define es0 where "es0 = (case extract_price_decimal (op_price_str old_product) of
                             Some d \<Rightarrow> [] | None \<Rightarrow> [PriceInvalid (op_id old_product)])"
  have "new_db m0 = new_db m"
    "old_category_name_to_new_category_id_map m0 = old_category_name_to_new_category_id_map m"
    "log m0 = log m @ es0" "set es0 \<subseteq> {PriceInvalid (op_id old_product)}"
    by (auto simp: m0_def es0_def split: option.split)
  moreover have "\<forall>cid. p_sku (new_product cid) = generate_sku (op_id old_product) (sku_draw env pc)
             \<and> p_category_id (new_product cid) = cid
             \<and> p_price (new_product cid) =
                  (case extract_price_decimal (op_price_str old_product) of
                     Some d \<Rightarrow> d | None \<Rightarrow> zero_price)"
    by (simp add: new_product_def)
  moreover have "product_iteration env pc m old_product =
          (case resolve_category m0 old_product of
             (m1, None) \<Rightarrow> m1
           | (m1, Some cid) \<Rightarrow> insert_product_part env pc m1 old_product (new_product cid))"
    by (simp add: product_iteration_def insert_product_part_def Let_def m0_def new_product_def
          cong: sum.case_cong option.case_cong if_cong prod.case_cong)
  ultimately show ?thesis by blast
qed

lemma resolve_category_outcome:
  assumes "resolve_category m0 old_product = (m1, res)"
  shows "\<exists>es. log m1 = log m0 @ es
     \<and> ((res = None \<and> rolled_back m0 m1 \<and> DefaultCategoryError \<in> set es)
        \<or> (res \<noteq> None \<and> set es \<subseteq> {ProductCategoryDefaulted (op_id old_product)}
            \<and> (\<not> falsy_id (old_category_name_to_new_category_id_map m0
                   (normalize_category_name (op_category_name_redundant old_product)))
                 \<longrightarrow> m1 = m0 \<and> res = old_category_name_to_new_category_id_map m0
                   (normalize_category_name (op_category_name_redundant old_product)))))"
proof (cases "falsy_id (old_category_name_to_new_category_id_map m0
        (normalize_category_name (op_category_name_redundant old_product)))")
  case False
  then have eq: "m1 = m0" "res = old_category_name_to_new_category_id_map m0
                   (normalize_category_name (op_category_name_redundant old_product))"
    using assms by (auto simp: resolve_category_resolved)
  have "res \<noteq> None"
  proof
    assume "res = None"
    then have "old_category_name_to_new_category_id_map m0
                   (normalize_category_name (op_category_name_redundant old_product)) = None"
      using eq(2) by simp
    then show False using False by (simp add: falsy_id_def)
  qed
  then show ?thesis using eq by simp
next
  case True
  show ?thesis
  proof (cases "old_category_name_to_new_category_id_map m0 ''Unknown''")
    case (Some v)
    then show ?thesis using True assms by (auto simp: resolve_category_def Let_def)
  next
    case None
    show ?thesis
    proof (cases "add_flush_category (new_db m0)
                       \<lparr>c_id = 0, c_name = ''Unknown'',
                        c_description = Some default_category_description\<rparr>")
      case (Inl e)
      then have "m1 = logged (logged (m0\<lparr>new_db := rollback (new_db m0)\<rparr>) DefaultCategoryError)
                       (ProductWithoutCategory (op_id old_product))" "res = None"
        using True None assms by (simp_all add: resolve_category_def Let_def)
      then show ?thesis by (simp add: rolled_back_def nothing_pending_def)
    next
      case (Inr r)
      obtain s1 row where r: "r = (s1, row)" by (cases r)
      have c1: "committed s1 = committed (new_db m0)"
        using add_flush_category_committed[OF Inr[unfolded r]] .
      show ?thesis
      proof (cases "commit s1")
        case c: (Inl e)
        then have "new_db m1 = rollback s1"
          "log m1 = log m0 @ [DefaultCategoryError, ProductWithoutCategory (op_id old_product)]"
          "res = None"
          using True None Inr r assms by (auto simp: resolve_category_def Let_def)
        then show ?thesis using c1 by (simp add: rolled_back_def nothing_pending_def)
      next
        case c: (Inr s2)
        then have "log m1 = log m0 @ [ProductCategoryDefaulted (op_id old_product)]"
          "res \<noteq> None"
          using True None Inr r assms by (auto simp: resolve_category_def Let_def)
        then show ?thesis using True by simp
      qed
    qed
  qed
qed

lemma insert_product_part_outcome:
  "(rolled_back m1 (insert_product_part env pc m1 old_product new_product)
      \<and> (logged_since m1 (insert_product_part env pc m1 old_product new_product)
            (ProductIntegrityError (op_id old_product))
         \<or> logged_since m1 (insert_product_part env pc m1 old_product new_product)
            (ProductError (op_id old_product))))
   \<or> log (insert_product_part env pc m1 old_product new_product) = log m1"
proof -
  let ?r = "insert_product_part env pc m1 old_product new_product"
  have failed: "rolled_back m1 ?r \<and> (logged_since m1 ?r (ProductIntegrityError (op_id old_product))
         \<or> logged_since m1 ?r (ProductError (op_id old_product)))"
    if r: "?r = product_except e mf old_product sku"
      and c: "committed (new_db mf) = committed (new_db m1)" and l: "log mf = log m1" for e mf sku
  proof -
    obtain es where es: "log (product_except e mf old_product sku) = log mf @ es"
       "ProductIntegrityError (op_id old_product) \<in> set es \<or> ProductError (op_id old_product) \<in> set es"
      using product_except_outcome(2)[of e mf old_product sku] by blast
    have "rolled_back m1 ?r"
      using rolled_back_rollback[OF _ c] product_except_outcome(1)[of e mf old_product sku] r by simp
    moreover have "log ?r = log m1 @ es" using es(1) l r by simp
    then have "logged_since m1 ?r (ProductIntegrityError (op_id old_product))
         \<or> logged_since m1 ?r (ProductError (op_id old_product))"
      using es(2) by (auto simp: logged_since_def)
    ultimately show ?thesis by simp
  qed
  show ?thesis
  proof (cases "add_flush_product (new_db m1) new_product")
    case (Inl e)
    then have "?r = product_except e m1 old_product (p_sku new_product)"
      by (simp add: insert_product_part_def)
    from failed[OF this] show ?thesis by simp
  next
    case (Inr p)
    obtain s1 row where p: "p = (s1, row)" by (cases p)
    have c1: "committed s1 = committed (new_db m1)"
      using add_flush_product_committed[OF Inr[unfolded p]] .
    define m2 where "m2 = map_product (m1\<lparr>new_db := s1\<rparr>) old_product row"
    have m2: "log m2 = log m1" "committed (new_db m2) = committed (new_db m1)"
      using c1 by (simp_all add: m2_def)
    have it: "?r = (if pc mod BATCH_SIZE = 0
             then (case commit (new_db m2) of
                     Inl e \<Rightarrow> product_except e m2 old_product (p_sku new_product)
                   | Inr s2 \<Rightarrow> m2\<lparr>new_db := s2\<rparr>)
             else m2)"
      using Inr p by (simp add: insert_product_part_def Let_def m2_def
          cong: sum.case_cong if_cong)
    show ?thesis
    proof (cases "pc mod BATCH_SIZE = 0")
      case False
      then show ?thesis using it m2 by simp
    next
      case True
      show ?thesis
      proof (cases "commit (new_db m2)")
        case (Inl e)
        then have "?r = product_except e m2 old_product (p_sku new_product)" using it True by simp
        from failed[OF this m2(2) m2(1)] show ?thesis by simp
      next
        case c: (Inr s2)
        then show ?thesis using it True m2 by simp
      qed
    qed
  qed
qed

lemma product_iteration_outcome:
  "(working (new_db (product_iteration env pc m old_product))
       = committed (new_db (product_iteration env pc m old_product))
     \<and> nothing_pending (new_db (product_iteration env pc m old_product))
     \<and> (\<not> falsy_id (old_category_name_to_new_category_id_map m
                   (normalize_category_name (op_category_name_redundant old_product)))
          \<longrightarrow> rolled_back m (product_iteration env pc m old_product))
     \<and> (logged_since m (product_iteration env pc m old_product) (ProductIntegrityError (op_id old_product))
        \<or> logged_since m (product_iteration env pc m old_product) (ProductError (op_id old_product))
        \<or> logged_since m (product_iteration env pc m old_product) DefaultCategoryError))
   \<or> (\<exists>es. log (product_iteration env pc m old_product) = log m @ es
         \<and> set es \<subseteq> {PriceInvalid (op_id old_product), ProductCategoryDefaulted (op_id old_product)})"
proof -
  let ?r = "product_iteration env pc m old_product"
  let ?resolved = "\<not> falsy_id (old_category_name_to_new_category_id_map m
                   (normalize_category_name (op_category_name_redundant old_product)))"
  obtain m0 new_product es0 where m0: "new_db m0 = new_db m"
      "old_category_name_to_new_category_id_map m0 = old_category_name_to_new_category_id_map m"
      "log m0 = log m @ es0" "set es0 \<subseteq> {PriceInvalid (op_id old_product)}"
    and it: "?r = (case resolve_category m0 old_product of
             (m1, None) \<Rightarrow> m1
           | (m1, Some cid) \<Rightarrow> insert_product_part env pc m1 old_product (new_product cid))"
    using product_iteration_split[of m old_product env pc] by blast
  obtain m1 res where rc: "resolve_category m0 old_product = (m1, res)"
    by (cases "resolve_category m0 old_product")
  obtain es1 where es1: "log m1 = log m0 @ es1"
    and alt: "(res = None \<and> rolled_back m0 m1 \<and> DefaultCategoryError \<in> set es1)
        \<or> (res \<noteq> None \<and> set es1 \<subseteq> {ProductCategoryDefaulted (op_id old_product)}
            \<and> (?resolved \<longrightarrow> m1 = m0))"
    using resolve_category_outcome[OF rc] m0(2) by auto
  have l1: "log m1 = log m @ (es0 @ es1)" using es1 m0(3) by simp
  from alt show ?thesis
  proof
    assume a: "res = None \<and> rolled_back m0 m1 \<and> DefaultCategoryError \<in> set es1"
    then have r: "?r = m1" using it rc by simp
    have "rolled_back m ?r" using a r m0(1) by (simp add: rolled_back_def)
    moreover have "logged_since m ?r DefaultCategoryError"
      using a l1 r by (auto simp: logged_since_def)
    ultimately show ?thesis by (simp add: rolled_back_def)
  next
    assume a: "res \<noteq> None \<and> set es1 \<subseteq> {ProductCategoryDefaulted (op_id old_product)}
            \<and> (?resolved \<longrightarrow> m1 = m0)"
    then obtain cid where cid: "res = Some cid" by auto
    let ?p = "insert_product_part env pc m1 old_product (new_product cid)"
    have r: "?r = ?p" using it rc cid by simp
    from insert_product_part_outcome[of m1 env pc old_product "new_product cid"] show ?thesis
    proof
      assume f: "rolled_back m1 ?p \<and> (logged_since m1 ?p (ProductIntegrityError (op_id old_product))
         \<or> logged_since m1 ?p (ProductError (op_id old_product)))"
      have "working (new_db ?r) = committed (new_db ?r)" "nothing_pending (new_db ?r)"
        using f r by (simp_all add: rolled_back_def)
      moreover have "?resolved \<longrightarrow> rolled_back m ?r"
        using f a r m0(1) by (auto simp: rolled_back_def)
      moreover have "logged_since m ?r (ProductIntegrityError (op_id old_product))
        \<or> logged_since m ?r (ProductError (op_id old_product))"
        using f r logged_since_prefix[OF l1] by auto
      ultimately show ?thesis by blast
    next
      assume "log ?p = log m1"
      then have "log ?r = log m @ (es0 @ es1)" using r l1 by simp
      moreover have "set (es0 @ es1) \<subseteq> {PriceInvalid (op_id old_product),
                                            ProductCategoryDefaulted (op_id old_product)}"
        using m0(4) a by auto
      ultimately show ?thesis by blast
    qed
  qed
qed

lemma product_iteration_failure:
  assumes "logged_since m (product_iteration env pc m old_product) (ProductIntegrityError (op_id old_product))
        \<or> logged_since m (product_iteration env pc m old_product) (ProductError (op_id old_product))
        \<or> logged_since m (product_iteration env pc m old_product) DefaultCategoryError"
  shows "working (new_db (product_iteration env pc m old_product))
       = committed (new_db (product_iteration env pc m old_product))
     \<and> nothing_pending (new_db (product_iteration env pc m old_product))
     \<and> (\<not> falsy_id (old_category_name_to_new_category_id_map m
                   (normalize_category_name (op_category_name_redundant old_product)))
          \<longrightarrow> rolled_back m (product_iteration env pc m old_product))"
proof -
  from product_iteration_outcome[of env pc m old_product] show ?thesis
  proof
    assume "\<exists>es. log (product_iteration env pc m old_product) = log m @ es
         \<and> set es \<subseteq> {PriceInvalid (op_id old_product), ProductCategoryDefaulted (op_id old_product)}"
    then obtain es where es: "log (product_iteration env pc m old_product) = log m @ es"
      "set es \<subseteq> {PriceInvalid (op_id old_product), ProductCategoryDefaulted (op_id old_product)}"
      by blast
    from assms have False
      unfolding logged_since_exact[OF es(1)] using es(2) by auto
    then show ?thesis ..
  qed simp
qed

lemma product_iteration_rejected:
  assumes cat: "old_category_name_to_new_category_id_map m
                  (normalize_category_name (op_category_name_redundant old_product)) = Some cid"
      "cid \<noteq> 0"
    and rej: "numeric_10_2_overflow (case extract_price_decimal (op_price_str old_product) of
                     Some d \<Rightarrow> d | None \<Rightarrow> zero_price)
       \<or> generate_sku (op_id old_product) (sku_draw env pc)
                \<in> set (map p_sku (products (working (new_db m))))
       \<or> cid \<notin> set (map c_id (product_categories (working (new_db m))))"
  shows "new_db (product_iteration env pc m old_product) = rollback (new_db m)"
    and "if numeric_10_2_overflow (case extract_price_decimal (op_price_str old_product) of
                     Some d \<Rightarrow> d | None \<Rightarrow> zero_price)
         then logged_since m (product_iteration env pc m old_product) (ProductError (op_id old_product))
         else logged_since m (product_iteration env pc m old_product)
                (ProductIntegrityError (op_id old_product))"
proof -
  let ?r = "product_iteration env pc m old_product"
  let ?price = "case extract_price_decimal (op_price_str old_product) of
                     Some d \<Rightarrow> d | None \<Rightarrow> zero_price"
  obtain m0 new_product es0 where m0: "new_db m0 = new_db m"
      "old_category_name_to_new_category_id_map m0 = old_category_name_to_new_category_id_map m"
      "log m0 = log m @ es0"
    and np: "p_sku (new_product cid) = generate_sku (op_id old_product) (sku_draw env pc)"
      "p_category_id (new_product cid) = cid" "p_price (new_product cid) = ?price"
    and it: "?r = (case resolve_category m0 old_product of
             (m1, None) \<Rightarrow> m1
           | (m1, Some cid) \<Rightarrow> insert_product_part env pc m1 old_product (new_product cid))"
    using product_iteration_split[of m old_product env pc] by blast
  have rc: "resolve_category m0 old_product = (m0, Some cid)"
    using cat by (simp add: resolve_category_def Let_def m0(2) falsy_id_def)
  define e where "e = (if numeric_10_2_overflow ?price then DataError else IntegrityError)"
  have fail: "add_flush_product (new_db m0) (new_product cid) = Inl e"
    using rej np by (auto simp: add_flush_product_def insert_product_def Let_def m0(1) e_def has_id_def)
  have r: "?r = product_except e m0 old_product (p_sku (new_product cid))"
    using it rc fail by (simp add: insert_product_part_def)
  show "new_db ?r = rollback (new_db m)" by (simp add: r product_except_outcome m0(1))
  obtain es where es: "log (product_except e m0 old_product (p_sku (new_product cid))) = log m0 @ es"
      "e = IntegrityError \<longrightarrow> ProductIntegrityError (op_id old_product) \<in> set es"
      "e \<noteq> IntegrityError \<longrightarrow> ProductError (op_id old_product) \<in> set es"
    using product_except_outcome(2)[of e m0 old_product "p_sku (new_product cid)"] by blast
  have "log ?r = log m @ (es0 @ es)" using es(1) m0(3) r by simp
  then show "if numeric_10_2_overflow ?price
         then logged_since m ?r (ProductError (op_id old_product))
         else logged_since m ?r (ProductIntegrityError (op_id old_product))"
    using es(2,3) by (auto simp: logged_since_def e_def)
qed

text \<open>The orders loop.\<close>

lemma insert_addresses_products:
  "insert_addresses s as = Inr s1 \<Longrightarrow>
     products (working s1) = products (working s) \<and> new_items s1 = new_items s"
proof (induction as arbitrary: s)
  case Nil
  then show ?case by simp
next
  case (Cons a as)
  then obtain s' where s': "insert_address s a = Inr s'" "insert_addresses s' as = Inr s1"
    by (auto split: sum.splits)
  have "products (working s') = products (working s) \<and> new_items s' = new_items s"
    using s'(1) by (auto simp: insert_address_def Let_def split: if_splits)
  then show ?case using Cons.IH[OF s'(2)] by simp
qed

lemma insert_items_products:
  "insert_items s its = Inr s1 \<Longrightarrow> products (working s1) = products (working s)"
proof (induction its arbitrary: s)
  case Nil
  then show ?case by simp
next
  case (Cons it its)
  then obtain s' where s': "insert_item s it = Inr s'" "insert_items s' its = Inr s1"
    by (auto split: sum.splits)
  have "products (working s') = products (working s)"
    using s'(1) by (auto simp: insert_item_def Let_def split: if_splits)
  then show ?case using Cons.IH[OF s'(2)] by simp
qed

lemma insert_items_dangling:
  "\<exists>it \<in> set its. i_product_id it \<notin> set (map p_id (products (working s))) \<Longrightarrow>
     \<exists>e. insert_items s its = Inl e"
proof (induction its arbitrary: s)
  case Nil
  then show ?case by simp
next
  case (Cons it its)
  show ?case
  proof (cases "insert_item s it")
    case (Inl e)
    then show ?thesis by simp
  next
    case (Inr s1)
    then have "products (working s1) = products (working s)"
      "i_product_id it \<in> set (map p_id (products (working s)))"
      by (auto simp: insert_item_def Let_def has_id_def split: if_splits)
    then have "\<exists>it \<in> set its. i_product_id it \<notin> set (map p_id (products (working s1)))"
      using Cons.prems by auto
    from Cons.IH[OF this] show ?thesis using Inr by simp
  qed
qed

lemma flush_dangling:
  assumes "\<exists>it \<in> set (new_items s). i_product_id it \<notin> set (map p_id (products (working s)))"
  shows "\<exists>e. flush s = Inl e"
proof (cases "insert_addresses s (new_addresses s)")
  case (Inl e)
  then show ?thesis by (simp add: flush_def)
next
  case (Inr s1)
  have "\<exists>e. insert_items s1 (new_items s) = Inl e"
    by (rule insert_items_dangling) (use assms insert_addresses_products[OF Inr] in simp)
  then show ?thesis using Inr by (auto simp: flush_def)
qed

lemma flush_products: "flush s = Inr s1 \<Longrightarrow> products (working s1) = products (working s)"
  by (auto simp: flush_def split: sum.splits
      dest!: insert_addresses_products insert_items_products)

lemma add_flush_order_dangling:
  assumes "\<exists>it \<in> set (new_items s). i_product_id it \<notin> set (map p_id (products (working s)))"
  shows "\<exists>e. add_flush_order s ord = Inl e"
proof (cases "insert_order s ord")
  case (Inl e)
  then show ?thesis by (simp add: add_flush_order_def)
next
  case (Inr r)
  obtain s1 row where r: "r = (s1, row)" by (cases r)
  have "products (working s1) = products (working s)" "new_items s1 = new_items s"
    using Inr r by (auto simp: insert_order_def Let_def split: if_splits)
  then have "\<exists>e. flush s1 = Inl e" using assms by (intro flush_dangling) simp
  then show ?thesis using Inr r by (auto simp: add_flush_order_def)
qed

lemma add_flush_order_products:
  "add_flush_order s ord = Inr (s1, row) \<Longrightarrow>
     products (working s1) = products (working s) \<and> new_items s1 = []"
  by (auto simp: add_flush_order_def insert_order_def Let_def flush_def
      split: sum.splits if_splits dest!: insert_addresses_products insert_items_products)

lemma commit_dangling:
  assumes "\<exists>it \<in> set (new_items s). i_product_id it \<notin> set (map p_id (products (working s)))"
  shows "\<exists>e. commit s = Inl e"
  using flush_dangling[OF assms] by (auto simp: commit_def)

lemma order_handler:
  assumes r: "r = order_except e mf old_order"
    and c: "committed (new_db mf) = committed (new_db m)" and l: "log mf = log m @ esf"
  shows "rolled_back m r \<and> (logged_since m r (OrderIntegrityError (oo_id old_order))
         \<or> logged_since m r (OrderError (oo_id old_order)))"
proof -
  obtain es where es: "log (order_except e mf old_order) = log mf @ es"
     "OrderIntegrityError (oo_id old_order) \<in> set es \<or> OrderError (oo_id old_order) \<in> set es"
    using order_except_outcome(2)[of e mf old_order] by blast
  have "rolled_back m r"
    using rolled_back_rollback[OF _ c] order_except_outcome(1)[of e mf old_order] r by simp
  moreover have "log r = log m @ (esf @ es)" using es(1) l r by simp
  then have "logged_since m r (OrderIntegrityError (oo_id old_order))
         \<or> logged_since m r (OrderError (oo_id old_order))"
    using es(2) by (auto simp: logged_since_def)
  ultimately show ?thesis by simp
qed

lemma create_item_outcome:
  "(rolled_back m (create_item pc m old_order new_order)
      \<and> (logged_since m (create_item pc m old_order new_order) (OrderIntegrityError (oo_id old_order))
         \<or> logged_since m (create_item pc m old_order new_order) (OrderError (oo_id old_order))))
   \<or> (\<exists>es. log (create_item pc m old_order new_order) = log m @ es
         \<and> set es \<inter> order_failure old_order = {})"
proof -
  let ?r = "create_item pc m old_order new_order"
  let ?pid = "lookup_opt (old_product_name_to_new_product_id_map m)
                             (oo_product_name_redundant old_order)"
  show ?thesis
  proof (cases "if falsy_id ?pid then None else ?pid")
    case None
    then have "log ?r = log m @ [OrderProductNotFound (oo_id old_order), OrderNotMigrated (oo_id old_order)]"
      by (simp add: create_item_def Let_def)
    then show ?thesis by (auto simp: order_failure_def)
  next
    case (Some product_id)
    define m1 where "m1 = (case extract_price_decimal (oo_unit_price_str_redundant old_order) of
                          Some d \<Rightarrow> m | None \<Rightarrow> logged m (UnitPriceInvalid (oo_id old_order)))"
    define es1 where "es1 = (case extract_price_decimal (oo_unit_price_str_redundant old_order) of
                          Some d \<Rightarrow> [] | None \<Rightarrow> [UnitPriceInvalid (oo_id old_order)])"
    define item where "item =
       \<lparr>i_id = 0, i_order_id = o_id new_order, i_product_id = product_id,
        i_quantity = (case oo_quantity old_order of
                                Some q \<Rightarrow> if q \<noteq> 0 \<and> q > 0 then q else 1
                              | None \<Rightarrow> 1),
        i_unit_price_at_purchase =
          (case extract_price_decimal (oo_unit_price_str_redundant old_order) of
             Some d \<Rightarrow> d | None \<Rightarrow> zero_price)\<rparr>"
    define m2 where "m2 = m1\<lparr>new_db := add_item (new_db m1) item\<rparr>"
    have l1: "log m1 = log m @ es1" "set es1 \<inter> order_failure old_order = {}" "new_db m1 = new_db m"
      by (auto simp: m1_def es1_def order_failure_def split: option.split)
    have l2: "log m2 = log m @ es1" "committed (new_db m2) = committed (new_db m)"
      using l1 by (simp_all add: m2_def add_item_def)
    have it: "?r = (if pc mod BATCH_SIZE = 0
                 then (case commit (new_db m2) of
                         Inl e \<Rightarrow> order_except e m2 old_order
                       | Inr s \<Rightarrow> m2\<lparr>new_db := s\<rparr>)
                 else m2)"
      using Some by (simp add: create_item_def Let_def m2_def m1_def item_def
          cong: sum.case_cong if_cong)
    show ?thesis
    proof (cases "pc mod BATCH_SIZE = 0")
      case False
      then have "log ?r = log m @ es1" using it l2 by simp
      then show ?thesis using l1(2) by blast
    next
      case True
      show ?thesis
      proof (cases "commit (new_db m2)")
        case (Inl e)
        then have "?r = order_except e m2 old_order" using it True by simp
        from order_handler[OF this l2(2) l2(1)] show ?thesis by simp
      next
        case c: (Inr s3)
        then have "log ?r = log m @ es1" using it True l2 by simp
        then show ?thesis using l1(2) by blast
      qed
    qed
  qed
qed

lemma order_iteration_outcome:
  "(rolled_back m (order_iteration env by_name pc m old_order)
      \<and> (logged_since m (order_iteration env by_name pc m old_order)
            (OrderIntegrityError (oo_id old_order))
         \<or> logged_since m (order_iteration env by_name pc m old_order)
            (OrderError (oo_id old_order))))
   \<or> (\<exists>es. log (order_iteration env by_name pc m old_order) = log m @ es
         \<and> set es \<inter> order_failure old_order = {})"
proof -
  let ?r = "order_iteration env by_name pc m old_order"
  show ?thesis
  proof (cases "lookup_opt by_name (oo_user_identifier_text old_order)")
    case None
    then have "log ?r = log m @ [OrderUserNotFound (oo_id old_order) (oo_user_identifier_text old_order)]"
      by (simp add: order_iteration_def)
    then show ?thesis by (auto simp: order_failure_def)
  next
    case (Some u)
    show ?thesis
    proof (cases "find (\<lambda>x. u_id x = u_id u) (users (working (new_db m))) = None
                  \<or> filter (\<lambda>a. a_user_id a = u_id u) (addresses (working (new_db m))) = []")
      case True
      then have "log ?r = log m @ [OrderUserWithoutAddress (u_id u) (oo_id old_order)]"
        using Some by (auto simp: order_iteration_def Let_def)
      then show ?thesis by (auto simp: order_failure_def)
    next
      case False
      define m0 where "m0 = (case parse_datetime_flexible (strptime env) (oo_order_date_str old_order)
                     order_date_formats of Some d \<Rightarrow> m
                | None \<Rightarrow> logged m (OrderDateDefaulted (oo_id old_order)))"
      define es0 where "es0 = (case parse_datetime_flexible (strptime env) (oo_order_date_str old_order)
                     order_date_formats of Some d \<Rightarrow> []
                | None \<Rightarrow> [OrderDateDefaulted (oo_id old_order)])"
      have l0: "log m0 = log m @ es0" "set es0 \<inter> order_failure old_order = {}" "new_db m0 = new_db m"
        by (auto simp: m0_def es0_def order_failure_def split: option.split)
      define user_addresses where
        "user_addresses = filter (\<lambda>a. a_user_id a = u_id u) (addresses (working (new_db m)))"
      define shipping_address where
        "shipping_address = (case find a_is_default_shipping user_addresses of
                            Some a \<Rightarrow> a | None \<Rightarrow> hd user_addresses)"
      define new_order where "new_order =
         \<lparr>o_id = 0, o_user_id = u_id u,
          o_order_date = (case parse_datetime_flexible (strptime env)
                                  (oo_order_date_str old_order) order_date_formats of
                            Some d \<Rightarrow> d | None \<Rightarrow> now env),
          o_status = map_order_status (oo_status_text old_order),
          o_shipping_address_id = a_id shipping_address,
          o_billing_address_id = a_id (case find a_is_default_billing user_addresses of
                            Some a \<Rightarrow> a | None \<Rightarrow> shipping_address)\<rparr>"
      have it: "?r = (case add_flush_order (new_db m0) new_order of
                        Inl e \<Rightarrow> order_except e m0 old_order
                      | Inr (s1, new_order_row) \<Rightarrow>
                          create_item pc (m0\<lparr>new_db := s1\<rparr>) old_order new_order_row)"
      proof -
        obtain y where f: "find (\<lambda>x. u_id x = u_id u) (users (working (new_db m))) = Some y"
          using False by auto
        have a: "filter (\<lambda>a. a_user_id a = u_id u) (addresses (working (new_db m))) \<noteq> []"
          using False by simp
        show ?thesis
          by (simp add: order_iteration_def Let_def m0_def new_order_def shipping_address_def
              user_addresses_def Some f a
              cong: sum.case_cong option.case_cong if_cong prod.case_cong)
      qed
      show ?thesis
      proof (cases "add_flush_order (new_db m0) new_order")
        case (Inl e)
        then have "?r = order_except e m0 old_order" using it by simp
        from order_handler[OF this _ l0(1)] show ?thesis using l0(3) by simp
      next
        case (Inr p)
        obtain s1 row where p: "p = (s1, row)" by (cases p)
        define m1 where "m1 = m0\<lparr>new_db := s1\<rparr>"
        have c1: "committed (new_db m1) = committed (new_db m)" "log m1 = log m @ es0"
          using add_flush_order_committed[OF Inr[unfolded p]] l0 by (simp_all add: m1_def)
        have r: "?r = create_item pc m1 old_order row" using it Inr p by (simp add: m1_def)
        from create_item_outcome[of m1 pc old_order row] show ?thesis
        proof
          assume f: "rolled_back m1 (create_item pc m1 old_order row)
             \<and> (logged_since m1 (create_item pc m1 old_order row) (OrderIntegrityError (oo_id old_order))
               \<or> logged_since m1 (create_item pc m1 old_order row) (OrderError (oo_id old_order)))"
          then have "rolled_back m ?r" using r c1(1) by (simp add: rolled_back_def)
          moreover have "logged_since m ?r (OrderIntegrityError (oo_id old_order))
               \<or> logged_since m ?r (OrderError (oo_id old_order))"
            using f r logged_since_prefix[OF c1(2)] by auto
          ultimately show ?thesis by blast
        next
          assume "\<exists>es. log (create_item pc m1 old_order row) = log m1 @ es
              \<and> set es \<inter> order_failure old_order = {}"
          then obtain es where "log (create_item pc m1 old_order row) = log m1 @ es"
              "set es \<inter> order_failure old_order = {}" by blast
          then have "log ?r = log m @ (es0 @ es)" "set (es0 @ es) \<inter> order_failure old_order = {}"
            using r c1(2) l0(2) by auto
          then show ?thesis by blast
        qed
      qed
    qed
  qed
qed

lemma order_iteration_failure:
  assumes "logged_since m (order_iteration env by_name pc m old_order)
            (OrderIntegrityError (oo_id old_order))
         \<or> logged_since m (order_iteration env by_name pc m old_order)
            (OrderError (oo_id old_order))"
  shows "rolled_back m (order_iteration env by_name pc m old_order)"
proof -
  from order_iteration_outcome[of m env by_name pc old_order] show ?thesis
  proof
    assume "\<exists>es. log (order_iteration env by_name pc m old_order) = log m @ es
         \<and> set es \<inter> order_failure old_order = {}"
    then obtain es where es: "log (order_iteration env by_name pc m old_order) = log m @ es"
      "set es \<inter> order_failure old_order = {}"
      by blast
    from assms have False
      unfolding logged_since_exact[OF es(1)] using es(2) by (auto simp: order_failure_def)
    then show ?thesis ..
  qed simp
qed

lemma order_iteration_split:
  assumes user: "lookup_opt by_name (oo_user_identifier_text old_order) = Some u"
    and found: "u_id u \<in> set (map u_id (users (working (new_db m))))"
    and addr: "u_id u \<in> set (map a_user_id (addresses (working (new_db m))))"
  shows "\<exists>m0 es0 new_order. new_db m0 = new_db m \<and> log m0 = log m @ es0
      \<and> old_product_name_to_new_product_id_map m0 = old_product_name_to_new_product_id_map m
      \<and> order_iteration env by_name pc m old_order =
          (case add_flush_order (new_db m0) new_order of
             Inl e \<Rightarrow> order_except e m0 old_order
           | Inr (s1, new_order_row) \<Rightarrow>
               create_item pc (m0\<lparr>new_db := s1\<rparr>) old_order new_order_row)"
proof -
  define m0 where "m0 = (case parse_datetime_flexible (strptime env) (oo_order_date_str old_order)
                     order_date_formats of Some d \<Rightarrow> m
                | None \<Rightarrow> logged m (OrderDateDefaulted (oo_id old_order)))"
  define es0 where "es0 = (case parse_datetime_flexible (strptime env) (oo_order_date_str old_order)
                     order_date_formats of Some d \<Rightarrow> []
                | None \<Rightarrow> [OrderDateDefaulted (oo_id old_order)])"
  define user_addresses where
    "user_addresses = filter (\<lambda>a. a_user_id a = u_id u) (addresses (working (new_db m)))"
  define shipping_address where
    "shipping_address = (case find a_is_default_shipping user_addresses of
                        Some a \<Rightarrow> a | None \<Rightarrow> hd user_addresses)"
  define new_order where "new_order =
     \<lparr>o_id = 0, o_user_id = u_id u,
      o_order_date = (case parse_datetime_flexible (strptime env)
                              (oo_order_date_str old_order) order_date_formats of
                        Some d \<Rightarrow> d | None \<Rightarrow> now env),
      o_status = map_order_status (oo_status_text old_order),
      o_shipping_address_id = a_id shipping_address,
      o_billing_address_id = a_id (case find a_is_default_billing user_addresses of
                        Some a \<Rightarrow> a | None \<Rightarrow> shipping_address)\<rparr>"
  have l0: "new_db m0 = new_db m" "log m0 = log m @ es0"
    "old_product_name_to_new_product_id_map m0 = old_product_name_to_new_product_id_map m"
    by (auto simp: m0_def es0_def split: option.split)
  have "find (\<lambda>x. u_id x = u_id u) (users (working (new_db m))) \<noteq> None"
    using found by (auto simp: find_None_iff)
  then obtain y where f: "find (\<lambda>x. u_id x = u_id u) (users (working (new_db m))) = Some y"
    by blast
  have a: "filter (\<lambda>a. a_user_id a = u_id u) (addresses (working (new_db m))) \<noteq> []"
    using addr by (auto simp: filter_empty_conv)
  have "order_iteration env by_name pc m old_order =
          (case add_flush_order (new_db m0) new_order of
             Inl e \<Rightarrow> order_except e m0 old_order
           | Inr (s1, new_order_row) \<Rightarrow>
               create_item pc (m0\<lparr>new_db := s1\<rparr>) old_order new_order_row)"
    by (simp add: order_iteration_def Let_def m0_def new_order_def shipping_address_def
        user_addresses_def user f a
        cong: sum.case_cong option.case_cong if_cong prod.case_cong)
  then show ?thesis using l0 by blast
qed

text \<open>
  The flush of an order sends the items that are pending, those of the orders before
  it: one of them without its product row makes the insert of this order fail.
\<close>

lemma order_iteration_pending_item:
  assumes user: "lookup_opt by_name (oo_user_identifier_text old_order) = Some u"
    and found: "u_id u \<in> set (map u_id (users (working (new_db m))))"
    and addr: "u_id u \<in> set (map a_user_id (addresses (working (new_db m))))"
    and dangling: "\<exists>it \<in> set (new_items (new_db m)).
                     i_product_id it \<notin> set (map p_id (products (working (new_db m))))"
  shows "rolled_back m (order_iteration env by_name pc m old_order)
     \<and> (logged_since m (order_iteration env by_name pc m old_order)
            (OrderIntegrityError (oo_id old_order))
         \<or> logged_since m (order_iteration env by_name pc m old_order)
            (OrderError (oo_id old_order)))"
proof -
  obtain m0 es0 new_order where m0: "new_db m0 = new_db m" "log m0 = log m @ es0"
    and it: "order_iteration env by_name pc m old_order =
          (case add_flush_order (new_db m0) new_order of
             Inl e \<Rightarrow> order_except e m0 old_order
           | Inr (s1, new_order_row) \<Rightarrow>
               create_item pc (m0\<lparr>new_db := s1\<rparr>) old_order new_order_row)"
    using order_iteration_split[OF user found addr, of env pc] by blast
  obtain e where "add_flush_order (new_db m0) new_order = Inl e"
    using add_flush_order_dangling[of "new_db m0" new_order] dangling m0(1) by auto
  then have "order_iteration env by_name pc m old_order = order_except e m0 old_order"
    using it by simp
  from order_handler[OF this _ m0(2)] show ?thesis using m0(1) by simp
qed

text \<open>
  The item of the order itself is sent by the commit at the end of a batch: when its
  product row is not in the transaction the commit fails.
\<close>

lemma order_iteration_own_item:
  assumes user: "lookup_opt by_name (oo_user_identifier_text old_order) = Some u"
    and found: "u_id u \<in> set (map u_id (users (working (new_db m))))"
    and addr: "u_id u \<in> set (map a_user_id (addresses (working (new_db m))))"
    and prod: "lookup_opt (old_product_name_to_new_product_id_map m)
                 (oo_product_name_redundant old_order) = Some pid" "pid \<noteq> 0"
      "pid \<notin> set (map p_id (products (working (new_db m))))"
    and batch: "pc mod BATCH_SIZE = 0"
  shows "rolled_back m (order_iteration env by_name pc m old_order)
     \<and> (logged_since m (order_iteration env by_name pc m old_order)
            (OrderIntegrityError (oo_id old_order))
         \<or> logged_since m (order_iteration env by_name pc m old_order)
            (OrderError (oo_id old_order)))"
proof -
  let ?r = "order_iteration env by_name pc m old_order"
  obtain m0 es0 new_order where m0: "new_db m0 = new_db m" "log m0 = log m @ es0"
      "old_product_name_to_new_product_id_map m0 = old_product_name_to_new_product_id_map m"
    and it: "?r = (case add_flush_order (new_db m0) new_order of
             Inl e \<Rightarrow> order_except e m0 old_order
           | Inr (s1, new_order_row) \<Rightarrow>
               create_item pc (m0\<lparr>new_db := s1\<rparr>) old_order new_order_row)"
    using order_iteration_split[OF user found addr, of env pc] by blast
  show ?thesis
  proof (cases "add_flush_order (new_db m0) new_order")
    case (Inl e)
    then have "?r = order_except e m0 old_order" using it by simp
    from order_handler[OF this _ m0(2)] show ?thesis using m0(1) by simp
  next
    case (Inr p)
    obtain s1 row where p: "p = (s1, row)" by (cases p)
    have s1: "committed s1 = committed (new_db m)"
      "products (working s1) = products (working (new_db m))" "new_items s1 = []"
      using add_flush_order_committed[OF Inr[unfolded p]]
        add_flush_order_products[OF Inr[unfolded p]] m0(1) by simp_all
    define m1 where "m1 = (case extract_price_decimal (oo_unit_price_str_redundant old_order) of
                          Some d \<Rightarrow> m0\<lparr>new_db := s1\<rparr>
                        | None \<Rightarrow> logged (m0\<lparr>new_db := s1\<rparr>) (UnitPriceInvalid (oo_id old_order)))"
    define es1 where "es1 = (case extract_price_decimal (oo_unit_price_str_redundant old_order) of
                          Some d \<Rightarrow> [] | None \<Rightarrow> [UnitPriceInvalid (oo_id old_order)])"
    define item where "item =
       \<lparr>i_id = 0, i_order_id = o_id row, i_product_id = pid,
        i_quantity = (case oo_quantity old_order of
                                Some q \<Rightarrow> if q \<noteq> 0 \<and> q > 0 then q else 1
                              | None \<Rightarrow> 1),
        i_unit_price_at_purchase =
          (case extract_price_decimal (oo_unit_price_str_redundant old_order) of
             Some d \<Rightarrow> d | None \<Rightarrow> zero_price)\<rparr>"
    define m2 where "m2 = m1\<lparr>new_db := add_item (new_db m1) item\<rparr>"
    have l1: "log m1 = log m @ (es0 @ es1)" "new_db m1 = s1"
      using m0(2) by (auto simp: m1_def es1_def split: option.split)
    have l2: "log m2 = log m @ (es0 @ es1)" "committed (new_db m2) = committed (new_db m)"
      "products (working (new_db m2)) = products (working (new_db m))"
      "new_items (new_db m2) = [item]"
      using l1 s1 by (simp_all add: m2_def add_item_def)
    have nf: "\<not> falsy_id (Some pid)" using prod(2) by (simp add: falsy_id_def)
    have ci: "create_item pc (m0\<lparr>new_db := s1\<rparr>) old_order row =
                 (case commit (new_db m2) of
                         Inl e \<Rightarrow> order_except e m2 old_order
                       | Inr s \<Rightarrow> m2\<lparr>new_db := s\<rparr>)"
      using prod(1) nf batch
      by (simp add: create_item_def Let_def m2_def m1_def item_def m0(3)
          cong: sum.case_cong if_cong)
    have "\<exists>it \<in> set (new_items (new_db m2)).
             i_product_id it \<notin> set (map p_id (products (working (new_db m2))))"
      using l2(3,4) prod(3) by (simp add: item_def)
    from commit_dangling[OF this] obtain e where "commit (new_db m2) = Inl e" by blast
    then have "?r = order_except e m2 old_order" using it Inr p ci by simp
    from order_handler[OF this l2(2) l2(1)] show ?thesis by simp
  qed
qed

text \<open>The commit that ends a stage.\<close>

lemma commit_or_rollback_outcome:
  "(rolled_back m (commit_or_rollback m) \<and> log (commit_or_rollback m) = log m @ [CommitError])
   \<or> log (commit_or_rollback m) = log m"
  by (cases "commit (new_db m)")
     (simp_all add: commit_or_rollback_def rolled_back_def nothing_pending_def)

lemma commit_or_rollback_failure:
  assumes "log (commit_or_rollback m) \<noteq> log m"
  shows "rolled_back m (commit_or_rollback m) \<and> log (commit_or_rollback m) = log m @ [CommitError]"
  using commit_or_rollback_outcome[of m] assms by blast

lemma commit_or_rollback_dangling:
  assumes "\<exists>it \<in> set (new_items (new_db m)).
             i_product_id it \<notin> set (map p_id (products (working (new_db m))))"
  shows "log (commit_or_rollback m) = log m @ [CommitError]"
proof -
  obtain e where "commit (new_db m) = Inl e" using commit_dangling[OF assms] by blast
  then show ?thesis by (simp add: commit_or_rollback_def)
qed

text \<open>
  Claim C3, as stated, fails. The target store holds the user \<open>bob\<close>; the legacy users
  \<open>alice\<close>, \<open>bob\<close>, \<open>carol\<close> are one batch. The insert of \<open>bob\<close> violates the unique
  username, and the rollback of the handler also discards the row of \<open>alice\<close>, flushed
  but not committed: after the stage \<open>alice\<close> is not in the target store.
\<close>

theorem rollback_loses_earlier_records:
  "map u_username (users (committed session_with_bob)) = [''bob'']
   \<and> map ou_username (old_users three_users) = [''alice'', ''bob'', ''carol'']
   \<and> map u_username (users (committed (new_db users_on_bob))) = [''bob'', ''carol'']
   \<and> log users_on_bob = [RegistrationDateDefaulted 1, RegistrationDateDefaulted 2,
                          UserIntegrityError 2, RegistrationDateDefaulted 3]"
  by code_simp

text \<open>
  Claim C3, amended. In the users, products and orders loops, whenever the handler of
  an iteration runs (the iteration writes an integrity error or a general error for its
  record to the log; for a product also the error of the default category) the whole
  open transaction is rolled back: afterwards it holds exactly the committed rows and
  nothing is pending, so the rows written by this record and by the records processed
  since the last commit are gone together, and the committed rows are those committed
  before the iteration (for a product whose category did not resolve, the default
  category may have been committed inside the iteration). A failing commit at the end
  of a stage rolls back the same way and logs no identifier. The loops are total
  functions and go on with the next record from the state after the rollback.

  The handler runs, and logs one of the two errors with the identifier of the record
  whose iteration meets the failure, when the store rejects
  \<^item> a user: e-mail missing, username taken or e-mail taken;
  \<^item> a product whose category resolved: price out of \<open>Numeric(10, 2)\<close> (then it is the
    general error that is logged), SKU taken or category row missing;
  \<^item> a pending order item whose product row is not in the transaction: an item of an
    earlier order at the flush of this order (the identifier in the log is then that of
    this order, not of the order the item belongs to), or the item of this order at the
    commit that ends a batch.
\<close>

theorem write_failure_rolls_back_open_transaction:
  "(logged_since m (user_iteration env pc m old_user) (UserIntegrityError (ou_id old_user))
      \<or> logged_since m (user_iteration env pc m old_user) (UserError (ou_id old_user)) \<longrightarrow>
       rolled_back m (user_iteration env pc m old_user))
   \<and> (ou_email old_user = None
       \<or> ou_username old_user \<in> set (map u_username (users (working (new_db m))))
       \<or> ou_email old_user \<in> set (map u_email (users (working (new_db m)))) \<longrightarrow>
       rolled_back m (user_iteration env pc m old_user)
     \<and> (logged_since m (user_iteration env pc m old_user) (UserIntegrityError (ou_id old_user))
        \<or> logged_since m (user_iteration env pc m old_user) (UserError (ou_id old_user))))
   \<and> (logged_since m (product_iteration env pc m old_product) (ProductIntegrityError (op_id old_product))
      \<or> logged_since m (product_iteration env pc m old_product) (ProductError (op_id old_product))
      \<or> logged_since m (product_iteration env pc m old_product) DefaultCategoryError \<longrightarrow>
       working (new_db (product_iteration env pc m old_product))
         = committed (new_db (product_iteration env pc m old_product))
     \<and> nothing_pending (new_db (product_iteration env pc m old_product))
     \<and> (\<not> falsy_id (old_category_name_to_new_category_id_map m
                   (normalize_category_name (op_category_name_redundant old_product))) \<longrightarrow>
          rolled_back m (product_iteration env pc m old_product)))
   \<and> (old_category_name_to_new_category_id_map m
         (normalize_category_name (op_category_name_redundant old_product)) = Some cid
       \<and> cid \<noteq> 0
       \<and> (numeric_10_2_overflow (case extract_price_decimal (op_price_str old_product) of
                     Some d \<Rightarrow> d | None \<Rightarrow> zero_price)
          \<or> generate_sku (op_id old_product) (sku_draw env pc)
               \<in> set (map p_sku (products (working (new_db m))))
          \<or> cid \<notin> set (map c_id (product_categories (working (new_db m))))) \<longrightarrow>
       rolled_back m (product_iteration env pc m old_product)
     \<and> (logged_since m (product_iteration env pc m old_product)
           (ProductIntegrityError (op_id old_product))
        \<or> logged_since m (product_iteration env pc m old_product) (ProductError (op_id old_product)))
     \<and> (numeric_10_2_overflow (case extract_price_decimal (op_price_str old_product) of
                     Some d \<Rightarrow> d | None \<Rightarrow> zero_price) \<longrightarrow>
          logged_since m (product_iteration env pc m old_product) (ProductError (op_id old_product))))
   \<and> (logged_since m (order_iteration env by_name pc m old_order) (OrderIntegrityError (oo_id old_order))
      \<or> logged_since m (order_iteration env by_name pc m old_order) (OrderError (oo_id old_order)) \<longrightarrow>
       rolled_back m (order_iteration env by_name pc m old_order))
   \<and> (lookup_opt by_name (oo_user_identifier_text old_order) = Some u
       \<and> u_id u \<in> set (map u_id (users (working (new_db m))))
       \<and> u_id u \<in> set (map a_user_id (addresses (working (new_db m))))
       \<and> ((\<exists>it \<in> set (new_items (new_db m)).
               i_product_id it \<notin> set (map p_id (products (working (new_db m)))))
          \<or> (lookup_opt (old_product_name_to_new_product_id_map m)
                 (oo_product_name_redundant old_order) = Some pid \<and> pid \<noteq> 0
              \<and> pid \<notin> set (map p_id (products (working (new_db m))))
              \<and> pc mod BATCH_SIZE = 0)) \<longrightarrow>
       rolled_back m (order_iteration env by_name pc m old_order)
     \<and> (logged_since m (order_iteration env by_name pc m old_order)
            (OrderIntegrityError (oo_id old_order))
        \<or> logged_since m (order_iteration env by_name pc m old_order)
            (OrderError (oo_id old_order))))
   \<and> (log (commit_or_rollback m) \<noteq> log m \<longrightarrow>
       rolled_back m (commit_or_rollback m) \<and> log (commit_or_rollback m) = log m @ [CommitError])
   \<and> ((\<exists>it \<in> set (new_items (new_db m)).
            i_product_id it \<notin> set (map p_id (products (working (new_db m))))) \<longrightarrow>
       rolled_back m (commit_or_rollback m) \<and> log (commit_or_rollback m) = log m @ [CommitError])"
proof (intro conjI impI)
  assume "logged_since m (user_iteration env pc m old_user) (UserIntegrityError (ou_id old_user))
      \<or> logged_since m (user_iteration env pc m old_user) (UserError (ou_id old_user))"
  then show "rolled_back m (user_iteration env pc m old_user)" by (rule user_iteration_failure)
next
  assume a: "ou_email old_user = None
       \<or> ou_username old_user \<in> set (map u_username (users (working (new_db m))))
       \<or> ou_email old_user \<in> set (map u_email (users (working (new_db m))))"
  have "logged_since m (user_iteration env pc m old_user) (UserIntegrityError (ou_id old_user))"
    using a by (rule user_iteration_rejected(2))
  then show l: "logged_since m (user_iteration env pc m old_user) (UserIntegrityError (ou_id old_user))
        \<or> logged_since m (user_iteration env pc m old_user) (UserError (ou_id old_user))"
    by simp
  show "rolled_back m (user_iteration env pc m old_user)"
    using l by (rule user_iteration_failure)
next
  assume a: "logged_since m (product_iteration env pc m old_product) (ProductIntegrityError (op_id old_product))
      \<or> logged_since m (product_iteration env pc m old_product) (ProductError (op_id old_product))
      \<or> logged_since m (product_iteration env pc m old_product) DefaultCategoryError"
  note f = product_iteration_failure[OF a]
  show "working (new_db (product_iteration env pc m old_product))
         = committed (new_db (product_iteration env pc m old_product))"
    "nothing_pending (new_db (product_iteration env pc m old_product))"
    using f by simp_all
  assume "\<not> falsy_id (old_category_name_to_new_category_id_map m
                   (normalize_category_name (op_category_name_redundant old_product)))"
  then show "rolled_back m (product_iteration env pc m old_product)" using f by simp
next
  assume a: "old_category_name_to_new_category_id_map m
         (normalize_category_name (op_category_name_redundant old_product)) = Some cid
       \<and> cid \<noteq> 0
       \<and> (numeric_10_2_overflow (case extract_price_decimal (op_price_str old_product) of
                     Some d \<Rightarrow> d | None \<Rightarrow> zero_price)
          \<or> generate_sku (op_id old_product) (sku_draw env pc)
               \<in> set (map p_sku (products (working (new_db m))))
          \<or> cid \<notin> set (map c_id (product_categories (working (new_db m)))))"
  then have h: "old_category_name_to_new_category_id_map m
         (normalize_category_name (op_category_name_redundant old_product)) = Some cid"
      "cid \<noteq> 0"
      "numeric_10_2_overflow (case extract_price_decimal (op_price_str old_product) of
                     Some d \<Rightarrow> d | None \<Rightarrow> zero_price)
          \<or> generate_sku (op_id old_product) (sku_draw env pc)
               \<in> set (map p_sku (products (working (new_db m))))
          \<or> cid \<notin> set (map c_id (product_categories (working (new_db m))))"
    by simp_all
  note p = product_iteration_rejected[OF h]
  show "rolled_back m (product_iteration env pc m old_product)"
    by (rule rolled_back_rollback[OF p(1)]) simp
  show "logged_since m (product_iteration env pc m old_product)
           (ProductIntegrityError (op_id old_product))
        \<or> logged_since m (product_iteration env pc m old_product) (ProductError (op_id old_product))"
    using p(2) by (simp split: if_splits)
  assume "numeric_10_2_overflow (case extract_price_decimal (op_price_str old_product) of
                     Some d \<Rightarrow> d | None \<Rightarrow> zero_price)"
  then show "logged_since m (product_iteration env pc m old_product) (ProductError (op_id old_product))"
    using p(2) by simp
next
  assume "logged_since m (order_iteration env by_name pc m old_order) (OrderIntegrityError (oo_id old_order))
      \<or> logged_since m (order_iteration env by_name pc m old_order) (OrderError (oo_id old_order))"
  then show "rolled_back m (order_iteration env by_name pc m old_order)"
    by (rule order_iteration_failure)
next
  assume a: "lookup_opt by_name (oo_user_identifier_text old_order) = Some u
       \<and> u_id u \<in> set (map u_id (users (working (new_db m))))
       \<and> u_id u \<in> set (map a_user_id (addresses (working (new_db m))))
       \<and> ((\<exists>it \<in> set (new_items (new_db m)).
               i_product_id it \<notin> set (map p_id (products (working (new_db m)))))
          \<or> (lookup_opt (old_product_name_to_new_product_id_map m)
                 (oo_product_name_redundant old_order) = Some pid \<and> pid \<noteq> 0
              \<and> pid \<notin> set (map p_id (products (working (new_db m))))
              \<and> pc mod BATCH_SIZE = 0))"
  then have h: "lookup_opt by_name (oo_user_identifier_text old_order) = Some u"
      "u_id u \<in> set (map u_id (users (working (new_db m))))"
      "u_id u \<in> set (map a_user_id (addresses (working (new_db m))))"
    by simp_all
  have "rolled_back m (order_iteration env by_name pc m old_order)
     \<and> (logged_since m (order_iteration env by_name pc m old_order)
            (OrderIntegrityError (oo_id old_order))
         \<or> logged_since m (order_iteration env by_name pc m old_order)
            (OrderError (oo_id old_order)))"
  proof -
    from a consider
        (pending) "\<exists>it \<in> set (new_items (new_db m)).
               i_product_id it \<notin> set (map p_id (products (working (new_db m))))"
      | (own) "lookup_opt (old_product_name_to_new_product_id_map m)
                 (oo_product_name_redundant old_order) = Some pid" "pid \<noteq> 0"
              "pid \<notin> set (map p_id (products (working (new_db m))))"
              "pc mod BATCH_SIZE = 0"
      by auto
    then show ?thesis
    proof cases
      case pending
      then show ?thesis by (rule order_iteration_pending_item[OF h])
    next
      case own
      then show ?thesis by (rule order_iteration_own_item[OF h])
    qed
  qed
  then show "rolled_back m (order_iteration env by_name pc m old_order)"
    "logged_since m (order_iteration env by_name pc m old_order)
            (OrderIntegrityError (oo_id old_order))
        \<or> logged_since m (order_iteration env by_name pc m old_order)
            (OrderError (oo_id old_order))"
    by simp_all
next
  assume "log (commit_or_rollback m) \<noteq> log m"
  from commit_or_rollback_failure[OF this]
  show "rolled_back m (commit_or_rollback m)" "log (commit_or_rollback m) = log m @ [CommitError]"
    by simp_all
next
  assume a: "\<exists>it \<in> set (new_items (new_db m)).
            i_product_id it \<notin> set (map p_id (products (working (new_db m))))"
  show l: "log (commit_or_rollback m) = log m @ [CommitError]"
    using a by (rule commit_or_rollback_dangling)
  then have "log (commit_or_rollback m) \<noteq> log m" by simp
  from commit_or_rollback_failure[OF this] show "rolled_back m (commit_or_rollback m)" by simp
qed

theorem write_failure_rolls_back_open_transaction_witness:
  "map u_username (users (working (new_db users_before_bob))) = [''bob'', ''alice'']
   \<and> map u_username (users (working (new_db
         (user_iteration (sample_env 100) 2 users_before_bob robert)))) = [''bob'']
   \<and> log (user_iteration (sample_env 100) 2 users_before_bob robert)
       = log users_before_bob
         @ [RegistrationDateDefaulted 5, UserIntegrityError 5, UserNotRecovered 5]
   \<and> working (new_db (product_iteration (sample_env 100) 1 ready_for_orders widget))
       = committed (new_db ready_for_orders)
   \<and> length (orders (working (new_db after_widget_order))) = 1
   \<and> orders (working (new_db (order_iteration (sample_env 100)
         (users_by_username (new_db ready_after_gadget)) 2 after_widget_order gadget_order))) = []
   \<and> orders (working (new_db (order_iteration (sample_env 100)
         (users_by_username (new_db ready_after_gadget)) 500 ready_after_gadget widget_order))) = []
   \<and> log (commit_or_rollback after_widget_order) = log after_widget_order @ [CommitError]
   \<and> orders (working (new_db (commit_or_rollback after_widget_order))) = []"
proof -
  have "let m = users_before_bob in
          (ou_email robert = None
           \<or> ou_username robert \<in> set (map u_username (users (working (new_db m))))
           \<or> ou_email robert \<in> set (map u_email (users (working (new_db m)))))
        \<and> map u_username (users (working (new_db m))) = [''bob'', ''alice'']
        \<and> map u_username (users (committed (new_db m))) = [''bob'']
        \<and> log (user_iteration (sample_env 100) 2 m robert)
            = log m @ [RegistrationDateDefaulted 5, UserIntegrityError 5, UserNotRecovered 5]"
    by code_simp
  then have hu: "ou_email robert = None
       \<or> ou_username robert \<in> set (map u_username (users (working (new_db users_before_bob))))
       \<or> ou_email robert \<in> set (map u_email (users (working (new_db users_before_bob))))"
    and u1: "map u_username (users (working (new_db users_before_bob))) = [''bob'', ''alice'']"
    and u2: "map u_username (users (committed (new_db users_before_bob))) = [''bob'']"
    and u3: "log (user_iteration (sample_env 100) 2 users_before_bob robert)
       = log users_before_bob
         @ [RegistrationDateDefaulted 5, UserIntegrityError 5, UserNotRecovered 5]"
    unfolding Let_def by blast+
  have "let m = ready_for_orders in
          old_category_name_to_new_category_id_map m
              (normalize_category_name (op_category_name_redundant widget)) = Some 1
            \<and> (1::int) \<noteq> 0
            \<and> (numeric_10_2_overflow (case extract_price_decimal (op_price_str widget) of
                     Some d \<Rightarrow> d | None \<Rightarrow> zero_price)
               \<or> generate_sku (op_id widget) (sku_draw (sample_env 100) 1)
                    \<in> set (map p_sku (products (working (new_db m))))
               \<or> 1 \<notin> set (map c_id (product_categories (working (new_db m)))))"
    by code_simp
  then have hp: "old_category_name_to_new_category_id_map ready_for_orders
              (normalize_category_name (op_category_name_redundant widget)) = Some 1
            \<and> (1::int) \<noteq> 0
            \<and> (numeric_10_2_overflow (case extract_price_decimal (op_price_str widget) of
                     Some d \<Rightarrow> d | None \<Rightarrow> zero_price)
               \<or> generate_sku (op_id widget) (sku_draw (sample_env 100) 1)
                    \<in> set (map p_sku (products (working (new_db ready_for_orders))))
               \<or> 1 \<notin> set (map c_id (product_categories (working (new_db ready_for_orders)))))"
    unfolding Let_def .
  define u where "u = the (lookup_opt (users_by_username (new_db ready_after_gadget)) (Some ''alice''))"
  have "let g = ready_after_gadget;
            v = the (lookup_opt (users_by_username (new_db g)) (Some ''alice''));
            m = after_widget_order
        in (lookup_opt (users_by_username (new_db g)) (oo_user_identifier_text gadget_order) = Some v
             \<and> u_id v \<in> set (map u_id (users (working (new_db m))))
             \<and> u_id v \<in> set (map a_user_id (addresses (working (new_db m))))
             \<and> ((\<exists>it \<in> set (new_items (new_db m)).
                   i_product_id it \<notin> set (map p_id (products (working (new_db m)))))
                \<or> (lookup_opt (old_product_name_to_new_product_id_map m)
                       (oo_product_name_redundant gadget_order) = Some 2 \<and> (2::int) \<noteq> 0
                    \<and> 2 \<notin> set (map p_id (products (working (new_db m))))
                    \<and> 2 mod BATCH_SIZE = 0)))
         \<and> (\<exists>it \<in> set (new_items (new_db m)).
                   i_product_id it \<notin> set (map p_id (products (working (new_db m)))))
         \<and> length (orders (working (new_db m))) = 1
         \<and> orders (committed (new_db m)) = []
         \<and> (lookup_opt (users_by_username (new_db g)) (oo_user_identifier_text widget_order) = Some v
             \<and> u_id v \<in> set (map u_id (users (working (new_db g))))
             \<and> u_id v \<in> set (map a_user_id (addresses (working (new_db g))))
             \<and> ((\<exists>it \<in> set (new_items (new_db g)).
                   i_product_id it \<notin> set (map p_id (products (working (new_db g)))))
                \<or> (lookup_opt (old_product_name_to_new_product_id_map g)
                       (oo_product_name_redundant widget_order) = Some 2 \<and> (2::int) \<noteq> 0
                    \<and> 2 \<notin> set (map p_id (products (working (new_db g))))
                    \<and> 500 mod BATCH_SIZE = 0)))
         \<and> orders (committed (new_db g)) = []"
    by code_simp
  then have ho: "lookup_opt (users_by_username (new_db ready_after_gadget))
              (oo_user_identifier_text gadget_order) = Some u
       \<and> u_id u \<in> set (map u_id (users (working (new_db after_widget_order))))
       \<and> u_id u \<in> set (map a_user_id (addresses (working (new_db after_widget_order))))
       \<and> ((\<exists>it \<in> set (new_items (new_db after_widget_order)).
             i_product_id it \<notin> set (map p_id (products (working (new_db after_widget_order)))))
          \<or> (lookup_opt (old_product_name_to_new_product_id_map after_widget_order)
                 (oo_product_name_redundant gadget_order) = Some 2 \<and> (2::int) \<noteq> 0
              \<and> 2 \<notin> set (map p_id (products (working (new_db after_widget_order))))
              \<and> 2 mod BATCH_SIZE = 0))"
    and hc: "\<exists>it \<in> set (new_items (new_db after_widget_order)).
             i_product_id it \<notin> set (map p_id (products (working (new_db after_widget_order))))"
    and o1: "length (orders (working (new_db after_widget_order))) = 1"
    and o2: "orders (committed (new_db after_widget_order)) = []"
    and hb: "lookup_opt (users_by_username (new_db ready_after_gadget))
              (oo_user_identifier_text widget_order) = Some u
       \<and> u_id u \<in> set (map u_id (users (working (new_db ready_after_gadget))))
       \<and> u_id u \<in> set (map a_user_id (addresses (working (new_db ready_after_gadget))))
       \<and> ((\<exists>it \<in> set (new_items (new_db ready_after_gadget)).
             i_product_id it \<notin> set (map p_id (products (working (new_db ready_after_gadget)))))
          \<or> (lookup_opt (old_product_name_to_new_product_id_map ready_after_gadget)
                 (oo_product_name_redundant widget_order) = Some 2 \<and> (2::int) \<noteq> 0
              \<and> 2 \<notin> set (map p_id (products (working (new_db ready_after_gadget))))
              \<and> 500 mod BATCH_SIZE = 0))"
    and o3: "orders (committed (new_db ready_after_gadget)) = []"
    unfolding Let_def u_def[symmetric] by blast+
  note t = write_failure_rolls_back_open_transaction
  from t[where env = "sample_env 100" and pc = 2,
         THEN conjunct2, THEN conjunct1, THEN mp, OF hu]
       t[THEN conjunct2, THEN conjunct2, THEN conjunct2, THEN conjunct1, THEN mp, OF hp]
       t[where env = "sample_env 100" and pc = 2,
         THEN conjunct2, THEN conjunct2, THEN conjunct2, THEN conjunct2, THEN conjunct2,
         THEN conjunct1, THEN mp, OF ho]
       t[where env = "sample_env 100" and pc = 500,
         THEN conjunct2, THEN conjunct2, THEN conjunct2, THEN conjunct2, THEN conjunct2,
         THEN conjunct1, THEN mp, OF hb]
       t[THEN conjunct2, THEN conjunct2, THEN conjunct2, THEN conjunct2, THEN conjunct2,
         THEN conjunct2, THEN conjunct2, THEN mp, OF hc]
  show ?thesis using u1 u2 u3 o1 o2 o3 by (simp add: rolled_back_def)
qed

subsection \<open>Two runs in a row\<close>

lemma canon_Unknown: "canon ''Unknown'' = ''Unknown''"
  by code_simp

lemma normalize_falsy: "falsy_str name \<Longrightarrow> normalize_category_name name = ''Unknown''"
  by (auto simp: falsy_str_def normalize_category_name_def split: option.splits)

lemma category_map_ok_same:
  assumes "old_category_name_to_new_category_id_map m' = old_category_name_to_new_category_id_map m"
    "product_categories (working (new_db m')) = product_categories (working (new_db m))"
  shows "category_map_ok m' = category_map_ok m"
  using assms by (simp add: category_map_ok_def)

lemma category_map_ok_row:
  "category_map_ok m \<Longrightarrow> old_category_name_to_new_category_id_map m k = Some v \<Longrightarrow>
     canon k \<in> set (map c_name (product_categories (working (new_db m))))"
  unfolding category_map_ok_def by force

lemma names_of_logged [simp]: "names_of (logged m e) = names_of m"
  by (simp add: names_of_def)

lemma resolve_category_inv:
  assumes inv: "cat_inv m" and st: "settled product_categories (new_db m)"
  shows "cat_inv (fst (resolve_category m old_product))
       \<and> settled product_categories (new_db (fst (resolve_category m old_product)))
       \<and> names_of m \<subseteq> names_of (fst (resolve_category m old_product))
       \<and> (falsy_str (op_category_name_redundant old_product) \<longrightarrow>
            ''Unknown'' \<in> names_of (fst (resolve_category m old_product)))"
proof -
  let ?M = old_category_name_to_new_category_id_map
  let ?n = "normalize_category_name (op_category_name_redundant old_product)"
  have np: "nothing_pending (new_db m)" and ok: "category_map_ok m"
    using inv by (simp_all add: cat_inv_def)
  show ?thesis
  proof (cases "falsy_id (?M m ?n)")
    case False
    then obtain v where v: "?M m ?n = Some v" by (auto simp: falsy_id_def split: option.splits)
    have "falsy_str (op_category_name_redundant old_product) \<longrightarrow> ''Unknown'' \<in> names_of m"
      using category_map_ok_row[OF ok v] by (auto simp: normalize_falsy canon_Unknown names_of_def)
    then show ?thesis using False inv st by (simp add: resolve_category_resolved)
  next
    case True
    show ?thesis
    proof (cases "?M m ''Unknown''")
      case (Some u)
      have "''Unknown'' \<in> names_of m"
        using category_map_ok_row[OF ok Some] by (simp add: canon_Unknown names_of_def)
      then show ?thesis using True Some inv st
        by (simp add: resolve_category_def Let_def names_of_def)
    next
      case None
      let ?c = "\<lparr>c_id = 0, c_name = ''Unknown'', c_description = Some default_category_description\<rparr>"
      show ?thesis
      proof (cases "''Unknown'' \<in> names_of m")
        case ex: True
        have af: "add_flush_category (new_db m) ?c = Inl IntegrityError"
          using ex by (intro add_flush_category_name_taken) (simp add: names_of_def)
        have db: "new_db (fst (resolve_category m old_product)) = rollback (new_db m)"
          and mp: "?M (fst (resolve_category m old_product)) = ?M m"
          using True None af by (simp_all add: resolve_category_def Let_def)
        have w: "product_categories (working (rollback (new_db m))) = product_categories (working (new_db m))"
          using st by (simp add: settled_def)
        have "category_map_ok (fst (resolve_category m old_product)) = category_map_ok m"
          by (rule category_map_ok_same) (simp_all only: db mp w)
        then have "category_map_ok (fst (resolve_category m old_product))"
          using ok by simp
        moreover have "settled product_categories (rollback (new_db m))"
          using settled_keeps[OF st keeps_rollback[OF st]] .
        ultimately show ?thesis using ex w
          by (simp add: cat_inv_def db names_of_def)
      next
        case nex: False
        let ?d = "Some default_category_description"
        let ?row = "\<lparr>c_id = seq_product_categories (new_db m), c_name = ''Unknown'', c_description = ?d\<rparr>"
        let ?s1 = "(new_db m)\<lparr>seq_product_categories := seq_product_categories (new_db m) + 1,
                   working := (working (new_db m))\<lparr>product_categories :=
                      product_categories (working (new_db m)) @ [?row]\<rparr>\<rparr>"
        have af: "add_flush_category (new_db m) ?c = Inr (?s1, ?row)"
          using add_flush_category_ok[OF np, of "''Unknown''" ?d] nex by (simp add: names_of_def)
        have np1: "nothing_pending ?s1" using np by (simp add: nothing_pending_def)
        have cm: "commit ?s1 = Inr (?s1\<lparr>committed := working ?s1\<rparr>)"
          using commit_nothing_pending[OF np1] .
        let ?m2 = "map_category (m\<lparr>new_db := ?s1\<lparr>committed := working ?s1\<rparr>\<rparr>) ''Unknown'' ''Unknown''
                     (c_id ?row)"
        have res: "fst (resolve_category m old_product) =
                     logged ?m2 (ProductCategoryDefaulted (op_id old_product))"
          using True None af cm
          by (simp add: resolve_category_def Let_def map_category_def)
        let ?m1 = "m\<lparr>new_db := ?s1\<lparr>committed := working ?s1\<rparr>\<rparr>"
        have ok1: "category_map_ok ?m1"
          by (rule category_map_ok_new_db[OF ok]) auto
        have "category_map_ok (map_category ?m1 ''Unknown'' (canon ''Unknown'') (c_id ?row))"
          by (rule map_category_ok[OF ok1]) (use None in \<open>auto simp: canon_Unknown\<close>)
        then have ok2: "category_map_ok ?m2" by (simp add: canon_Unknown)
        have "nothing_pending (new_db ?m2)" using np by (simp add: nothing_pending_def)
        then have c2: "cat_inv ?m2" using ok2 by (simp add: cat_inv_def)
        have s2: "settled product_categories (new_db ?m2)"
          using st by (simp add: settled_def)
        have n2: "names_of m \<subseteq> names_of ?m2" "''Unknown'' \<in> names_of ?m2"
          by (auto simp: names_of_def)
        show ?thesis unfolding res using c2 s2 n2
          by (simp only: cat_inv_logged logged_simps names_of_logged simp_thms)
      qed
    qed
  qed
qed

lemma insert_product_part_inv:
  assumes inv: "cat_inv m1" and st: "settled product_categories (new_db m1)"
  shows "cat_inv (insert_product_part env pc m1 old_product new_product)
       \<and> settled product_categories (new_db (insert_product_part env pc m1 old_product new_product))
       \<and> names_of (insert_product_part env pc m1 old_product new_product) = names_of m1"
proof -
  let ?m' = "insert_product_part env pc m1 old_product new_product"
  have k: "keeps product_categories (new_db m1) (new_db ?m')"
    by (rule insert_product_part_keeps[OF _ _ st]) simp_all
  have w: "product_categories (working (new_db ?m')) = product_categories (working (new_db m1))"
    using k by (simp add: keeps_def)
  have "category_map_ok ?m' = category_map_ok m1"
    by (rule category_map_ok_same) (simp_all add: w)
  moreover have "nothing_pending (new_db ?m')"
    using insert_product_part_np inv by (simp add: cat_inv_def)
  ultimately show ?thesis using inv settled_keeps[OF st k] w
    by (simp add: cat_inv_def names_of_def)
qed

lemma product_iteration_inv:
  assumes inv: "cat_inv m" and st: "settled product_categories (new_db m)"
  shows "cat_inv (product_iteration env pc m old_product)
       \<and> settled product_categories (new_db (product_iteration env pc m old_product))
       \<and> names_of m \<subseteq> names_of (product_iteration env pc m old_product)
       \<and> (falsy_str (op_category_name_redundant old_product) \<longrightarrow>
            ''Unknown'' \<in> names_of (product_iteration env pc m old_product))"
proof -
  obtain m0 new_product where m0: "new_db m0 = new_db m"
      "old_category_name_to_new_category_id_map m0 = old_category_name_to_new_category_id_map m"
    and it: "product_iteration env pc m old_product =
          (case resolve_category m0 old_product of
             (m1, None) \<Rightarrow> m1
           | (m1, Some cid) \<Rightarrow> insert_product_part env pc m1 old_product (new_product cid))"
    using product_iteration_parts[of m env pc old_product] by blast
  have inv0: "cat_inv m0" "settled product_categories (new_db m0)" "names_of m0 = names_of m"
    using inv st m0 by (simp_all add: cat_inv_def category_map_ok_def names_of_def)
  obtain m1 r where rc: "resolve_category m0 old_product = (m1, r)"
    by (cases "resolve_category m0 old_product")
  have r1: "cat_inv m1" "settled product_categories (new_db m1)" "names_of m \<subseteq> names_of m1"
    "falsy_str (op_category_name_redundant old_product) \<longrightarrow> ''Unknown'' \<in> names_of m1"
    using resolve_category_inv[OF inv0(1,2), of old_product] rc inv0(3) by simp_all
  show ?thesis
  proof (cases r)
    case None
    then show ?thesis using r1 rc by (simp add: it)
  next
    case (Some cid)
    from insert_product_part_inv[OF r1(1,2), of env pc old_product "new_product cid"]
    show ?thesis using r1 rc Some by (simp add: it)
  qed
qed

lemma products_loop_inv:
  "cat_inv m \<Longrightarrow> settled product_categories (new_db m) \<Longrightarrow>
     cat_inv (products_loop env pc m ps)
   \<and> settled product_categories (new_db (products_loop env pc m ps))
   \<and> names_of m \<subseteq> names_of (products_loop env pc m ps)
   \<and> ((\<exists>p \<in> set ps. falsy_str (op_category_name_redundant p)) \<longrightarrow>
        ''Unknown'' \<in> names_of (products_loop env pc m ps))"
proof (induction ps arbitrary: pc m)
  case Nil
  then show ?case by simp
next
  case (Cons x ps)
  let ?m1 = "product_iteration env (pc + 1) m x"
  note s = product_iteration_inv[OF Cons.prems, of env "pc + 1" x]
  then have s1: "cat_inv ?m1" "settled product_categories (new_db ?m1)" by simp_all
  note ih = Cons.IH[OF s1, of "pc + 1"]
  have loop: "products_loop env pc m (x # ps) = products_loop env (pc + 1) ?m1 ps" by simp
  show ?case unfolding loop using s ih by auto
qed

lemma commit_or_rollback_settled:
  assumes "nothing_pending (new_db m)"
  shows "working (new_db (commit_or_rollback m)) = working (new_db m)"
    and "committed (new_db (commit_or_rollback m)) = working (new_db m)"
    and "nothing_pending (new_db (commit_or_rollback m))"
    and "old_category_name_to_new_category_id_map (commit_or_rollback m)
           = old_category_name_to_new_category_id_map m"
  using assms by (simp_all add: commit_or_rollback_nothing_pending nothing_pending_def)

lemma migrate_products_default_category:
  assumes inv: "cat_inv m" and st: "settled product_categories (new_db m)"
    and ex: "\<exists>p \<in> set (old_products old_db). falsy_str (op_category_name_redundant p)"
  shows "''Unknown'' \<in> set (map c_name (product_categories
            (committed (new_db (migrate_products env old_db m)))))"
proof -
  let ?l = "products_loop env 0 m (old_products old_db)"
  note l = products_loop_inv[OF inv st, of env 0 "old_products old_db"]
  then have "nothing_pending (new_db ?l)" by (simp add: cat_inv_def)
  from commit_or_rollback_settled(2)[OF this] l ex
  show ?thesis by (auto simp: migrate_products_def names_of_def)
qed

lemma user_except_map [simp]:
  "old_category_name_to_new_category_id_map (user_except e m old_user)
     = old_category_name_to_new_category_id_map m"
  by (simp add: user_except_def Let_def split: option.split)

lemma create_address_map:
  "create_address m row old_user = Inr m2 \<Longrightarrow>
     old_category_name_to_new_category_id_map m2 = old_category_name_to_new_category_id_map m"
  by (auto simp: create_address_def split: if_splits sum.splits)

lemma user_iteration_map [simp]:
  "old_category_name_to_new_category_id_map (user_iteration env pc m old_user)
     = old_category_name_to_new_category_id_map m"
proof -
  define m0 where "m0 = (case parse_datetime_flexible (strptime env) (ou_registration_date_str old_user)
                     reg_date_formats of Some d \<Rightarrow> m
                | None \<Rightarrow> logged m (RegistrationDateDefaulted (ou_id old_user)))"
  have map0: "old_category_name_to_new_category_id_map m0 = old_category_name_to_new_category_id_map m"
    by (simp add: m0_def split: option.split)
  show ?thesis
    unfolding user_iteration_def Let_def m0_def[symmetric]
    by (auto simp: map0 split: sum.split prod.split dest: create_address_map)
qed

lemma users_loop_map [simp]:
  "old_category_name_to_new_category_id_map (users_loop env pc m us)
     = old_category_name_to_new_category_id_map m"
  by (induction us arbitrary: pc m) simp_all

text \<open>The users stage of a second run: every username is taken.\<close>

lemma users_loop_all_taken:
  "\<forall>u \<in> set us. ou_username u \<in> set (map u_username (users (committed (new_db m)))) \<Longrightarrow>
   working (new_db m) = committed (new_db m) \<Longrightarrow> nothing_pending (new_db m) \<Longrightarrow>
     working (new_db (users_loop env pc m us)) = committed (new_db m)
   \<and> committed (new_db (users_loop env pc m us)) = committed (new_db m)
   \<and> nothing_pending (new_db (users_loop env pc m us))"
proof (induction us arbitrary: pc m)
  case Nil
  then show ?case by simp
next
  case (Cons x us)
  let ?m1 = "user_iteration env (pc + 1) m x"
  have "ou_username x \<in> set (map u_username (users (working (new_db m))))"
    using Cons.prems by simp
  from user_iteration_username_taken(1)[OF this, of env "pc + 1"]
  have db: "new_db ?m1 = rollback (new_db m)" .
  have "working (new_db (users_loop env (pc + 1) ?m1 us)) = committed (new_db ?m1)
   \<and> committed (new_db (users_loop env (pc + 1) ?m1 us)) = committed (new_db ?m1)
   \<and> nothing_pending (new_db (users_loop env (pc + 1) ?m1 us))"
    by (rule Cons.IH) (use Cons.prems db in simp_all)
  then show ?case using db by simp
qed

lemma migrate_users_all_taken:
  assumes "\<forall>u \<in> set (old_users old_db). ou_username u \<in> set (map u_username (users (committed (new_db m))))"
    and "working (new_db m) = committed (new_db m)" and "nothing_pending (new_db m)"
  shows "working (new_db (migrate_users_and_addresses env old_db m)) = committed (new_db m)"
    and "committed (new_db (migrate_users_and_addresses env old_db m)) = committed (new_db m)"
    and "nothing_pending (new_db (migrate_users_and_addresses env old_db m))"
    and "old_category_name_to_new_category_id_map (migrate_users_and_addresses env old_db m)
           = old_category_name_to_new_category_id_map m"
proof -
  let ?l = "users_loop env 0 m (old_users old_db)"
  note l = users_loop_all_taken[OF assms, of env 0]
  then have np: "nothing_pending (new_db ?l)" by simp
  show "working (new_db (migrate_users_and_addresses env old_db m)) = committed (new_db m)"
    "committed (new_db (migrate_users_and_addresses env old_db m)) = committed (new_db m)"
    "nothing_pending (new_db (migrate_users_and_addresses env old_db m))"
    "old_category_name_to_new_category_id_map (migrate_users_and_addresses env old_db m)
           = old_category_name_to_new_category_id_map m"
    using commit_or_rollback_settled[OF np] l
    by (simp_all add: migrate_users_and_addresses_def)
qed

lemma insert_addresses_valid:
  "\<forall>a \<in> set as. a_user_id a \<in> set (map u_id (users (working s))) \<Longrightarrow>
   \<exists>s'. insert_addresses s as = Inr s' \<and> users (working s') = users (working s)
      \<and> product_categories (working s') = product_categories (working s)
      \<and> committed s' = committed s \<and> new_items s' = new_items s
      \<and> seq_product_categories s' = seq_product_categories s"
proof (induction as arbitrary: s)
  case Nil
  then show ?case by simp
next
  case (Cons a as)
  let ?s1 = "s\<lparr>seq_addresses := seq_addresses s + 1,
               working := (working s)\<lparr>addresses := addresses (working s)
                  @ [a\<lparr>a_id := seq_addresses s\<rparr>]\<rparr>\<rparr>"
  have i: "insert_address s a = Inr ?s1"
    using Cons.prems by (simp add: insert_address_def Let_def has_id_def)
  have "\<forall>a \<in> set as. a_user_id a \<in> set (map u_id (users (working ?s1)))"
    using Cons.prems by simp
  from Cons.IH[OF this] show ?case using i by auto
qed

lemma flush_valid:
  assumes "pending_valid s"
  shows "\<exists>s'. flush s = Inr s' \<and> users (working s') = users (working s)
      \<and> product_categories (working s') = product_categories (working s)
      \<and> committed s' = committed s \<and> nothing_pending s'
      \<and> seq_product_categories s' = seq_product_categories s"
proof -
  obtain s1 where s1: "insert_addresses s (new_addresses s) = Inr s1"
    "users (working s1) = users (working s)"
    "product_categories (working s1) = product_categories (working s)"
    "committed s1 = committed s" "new_items s1 = new_items s"
    "seq_product_categories s1 = seq_product_categories s"
    using insert_addresses_valid[of "new_addresses s" s] assms
    by (auto simp: pending_valid_def)
  have "new_items s = []" using assms by (simp add: pending_valid_def)
  then have "flush s = Inr (s1\<lparr>new_addresses := [], new_items := []\<rparr>)"
    using s1 by (simp add: flush_def)
  then show ?thesis using s1 by (simp add: nothing_pending_def)
qed

lemma nothing_pending_valid: "nothing_pending s \<Longrightarrow> pending_valid s"
  by (simp add: nothing_pending_def pending_valid_def)

lemma commit_valid:
  assumes "pending_valid s"
  shows "\<exists>s'. commit s = Inr s' \<and> users (working s') = users (working s)
      \<and> product_categories (working s') = product_categories (working s)
      \<and> committed s' = working s' \<and> nothing_pending s'
      \<and> seq_product_categories s' = seq_product_categories s"
proof -
  obtain s1 where "flush s = Inr s1" "users (working s1) = users (working s)"
      "product_categories (working s1) = product_categories (working s)" "nothing_pending s1"
      "seq_product_categories s1 = seq_product_categories s"
    using flush_valid[OF assms] by blast
  then show ?thesis by (simp add: commit_def nothing_pending_def)
qed

lemma create_address_ok:
  "\<exists>m2. create_address m1 row old_user = Inr m2
     \<and> (new_db m2 = new_db m1
         \<or> (\<exists>a. new_db m2 = add_address (new_db m1) a \<and> a_user_id a = u_id row))"
proof (cases "falsy_str (ou_address_combined old_user)")
  case True
  then show ?thesis by (simp add: create_address_def)
next
  case False
  then obtain a where a: "ou_address_combined old_user = Some a"
    by (auto simp: falsy_str_def split: option.splits)
  obtain r where r: "parse_address (Some a) = Inr r"
    using parse_address_Some_ok[of a] by blast
  show ?thesis
  proof (cases "any_available r")
    case True
    let ?a = "\<lparr>a_id = 0, a_user_id = u_id row, a_street = street r,
                a_city = city r, a_state = state r, a_zip_code = zip_code r,
                a_country = country r, a_is_default_shipping = True,
                a_is_default_billing = True\<rparr>"
    have "create_address m1 row old_user = Inr (m1\<lparr>new_db := add_address (new_db m1) ?a\<rparr>)"
      using True False a r by (simp add: create_address_def)
    moreover have "a_user_id ?a = u_id row" by simp
    ultimately show ?thesis by (intro exI[of _ "m1\<lparr>new_db := add_address (new_db m1) ?a\<rparr>"] conjI disjI2 exI[of _ ?a]) simp_all
  next
    case F: False
    then show ?thesis using False a r by (simp add: create_address_def)
  qed
qed

lemma user_iteration_fresh:
  assumes pv: "pending_valid (new_db m)"
    and nt: "ou_username old_user \<notin> set (map u_username (users (working (new_db m))))"
    and em: "ou_email old_user \<noteq> None"
      "ou_email old_user \<notin> set (map u_email (users (working (new_db m))))"
  shows "\<exists>row. users (working (new_db (user_iteration env pc m old_user)))
                 = users (working (new_db m)) @ [row]
          \<and> u_username row = ou_username old_user \<and> u_email row = ou_email old_user
          \<and> pending_valid (new_db (user_iteration env pc m old_user))
          \<and> product_categories (working (new_db (user_iteration env pc m old_user)))
               = product_categories (working (new_db m))
          \<and> seq_product_categories (new_db (user_iteration env pc m old_user))
               = seq_product_categories (new_db m)"
proof -
  define m0 where "m0 = (case parse_datetime_flexible (strptime env) (ou_registration_date_str old_user)
                     reg_date_formats of Some d \<Rightarrow> m
                | None \<Rightarrow> logged m (RegistrationDateDefaulted (ou_id old_user)))"
  have db0: "new_db m0 = new_db m" by (simp add: m0_def split: option.split)
  define new_user where "new_user =
     \<lparr>u_id = 0, u_username = ou_username old_user, u_email = ou_email old_user,
      u_full_name = ou_full_name old_user,
      u_hashed_password = ''migrated_placeholder_for_'' @ ou_username old_user,
      u_is_active = True, u_is_superuser = False,
      u_registration_date = (case parse_datetime_flexible (strptime env)
          (ou_registration_date_str old_user) reg_date_formats of Some d \<Rightarrow> d | None \<Rightarrow> now env),
      u_phone_number = ou_phone_number_str old_user\<rparr>"
  define row where "row = new_user\<lparr>u_id := seq_users (new_db m)\<rparr>"
  define s1 where "s1 = (new_db m)\<lparr>seq_users := seq_users (new_db m) + 1,
       working := (working (new_db m))\<lparr>users := users (working (new_db m)) @ [row]\<rparr>\<rparr>"
  have iu: "insert_user (new_db m) new_user = Inr (s1, row)"
    using nt em by (simp add: insert_user_def Let_def new_user_def row_def s1_def)
  have pv1: "pending_valid s1" using pv by (auto simp: pending_valid_def s1_def)
  obtain s2 where s2: "flush s1 = Inr s2" "users (working s2) = users (working s1)"
      "product_categories (working s2) = product_categories (working s1)" "nothing_pending s2"
      "seq_product_categories s2 = seq_product_categories s1"
    using flush_valid[OF pv1] by blast
  have af: "add_flush_user (new_db m0) new_user = Inr (s2, row)"
    using iu s2(1) by (simp add: add_flush_user_def db0)
  define m1 where "m1 = m0\<lparr>new_db := s2, old_user_id_to_new_user_map :=
                           (old_user_id_to_new_user_map m0)(ou_id old_user \<mapsto> row)\<rparr>"
  obtain m2 where m2: "create_address m1 row old_user = Inr m2"
    "new_db m2 = new_db m1 \<or> (\<exists>a. new_db m2 = add_address (new_db m1) a \<and> a_user_id a = u_id row)"
    using create_address_ok by blast
  have it: "user_iteration env pc m old_user =
     (if pc mod BATCH_SIZE = 0
      then (case commit (new_db m2) of Inl e \<Rightarrow> user_except e m2 old_user
            | Inr s3 \<Rightarrow> m2\<lparr>new_db := s3\<rparr>)
      else m2)"
    unfolding user_iteration_def Let_def m0_def[symmetric] new_user_def[symmetric]
    using af m2(1) by (simp add: m1_def)
  have u2: "users (working (new_db m2)) = users (working (new_db m)) @ [row]"
    using m2(2) s2(2) by (auto simp: m1_def s1_def add_address_def)
  have c2: "product_categories (working (new_db m2)) = product_categories (working (new_db m))"
    using m2(2) s2(3) by (auto simp: m1_def s1_def add_address_def)
  have q2: "seq_product_categories (new_db m2) = seq_product_categories (new_db m)"
    using m2(2) s2(5) by (auto simp: m1_def s1_def add_address_def)
  have pv2: "pending_valid (new_db m2)"
    using m2(2) s2(2,4)
    by (auto simp: m1_def s1_def add_address_def pending_valid_def nothing_pending_def)
  have rw: "u_username row = ou_username old_user" "u_email row = ou_email old_user"
    by (simp_all add: row_def new_user_def)
  show ?thesis
  proof (cases "pc mod BATCH_SIZE = 0")
    case False
    then show ?thesis using u2 c2 pv2 rw q2 by (auto simp: it)
  next
    case True
    obtain s3 where s3: "commit (new_db m2) = Inr s3" "users (working s3) = users (working (new_db m2))"
      "product_categories (working s3) = product_categories (working (new_db m2))" "nothing_pending s3"
      "seq_product_categories s3 = seq_product_categories (new_db m2)"
      using commit_valid[OF pv2] by blast
    then show ?thesis using True u2 c2 rw q2 nothing_pending_valid[OF s3(4)] by (auto simp: it)
  qed
qed

lemma users_loop_fresh:
  "pending_valid (new_db m) \<Longrightarrow> distinct (map ou_username us) \<Longrightarrow> distinct (map ou_email us) \<Longrightarrow>
   \<forall>u \<in> set us. ou_email u \<noteq> None
       \<and> ou_username u \<notin> set (map u_username (users (working (new_db m))))
       \<and> ou_email u \<notin> set (map u_email (users (working (new_db m)))) \<Longrightarrow>
     pending_valid (new_db (users_loop env pc m us))
   \<and> set (map u_username (users (working (new_db m)))) \<union> set (map ou_username us)
        \<subseteq> set (map u_username (users (working (new_db (users_loop env pc m us)))))
   \<and> product_categories (working (new_db (users_loop env pc m us)))
        = product_categories (working (new_db m))
   \<and> seq_product_categories (new_db (users_loop env pc m us)) = seq_product_categories (new_db m)"
proof (induction us arbitrary: pc m)
  case Nil
  then show ?case by simp
next
  case (Cons x us)
  let ?m1 = "user_iteration env (pc + 1) m x"
  have x: "ou_username x \<notin> set (map u_username (users (working (new_db m))))"
    "ou_email x \<noteq> None" "ou_email x \<notin> set (map u_email (users (working (new_db m))))"
    using Cons.prems(4) by simp_all
  obtain row where row: "users (working (new_db ?m1)) = users (working (new_db m)) @ [row]"
    "u_username row = ou_username x" "u_email row = ou_email x" "pending_valid (new_db ?m1)"
    "product_categories (working (new_db ?m1)) = product_categories (working (new_db m))"
    "seq_product_categories (new_db ?m1) = seq_product_categories (new_db m)"
    using user_iteration_fresh[OF Cons.prems(1) x, of env "pc + 1"] by blast
  have d: "distinct (map ou_username us)" "distinct (map ou_email us)"
    using Cons.prems(2,3) by simp_all
  have r: "\<forall>u \<in> set us. ou_email u \<noteq> None
       \<and> ou_username u \<notin> set (map u_username (users (working (new_db ?m1))))
       \<and> ou_email u \<notin> set (map u_email (users (working (new_db ?m1))))"
  proof
    fix u assume u: "u \<in> set us"
    have "ou_username u \<noteq> ou_username x" "ou_email u \<noteq> ou_email x"
      using Cons.prems(2,3) u by (auto simp: image_iff)
    moreover have "ou_email u \<noteq> None"
       "ou_username u \<notin> set (map u_username (users (working (new_db m))))"
       "ou_email u \<notin> set (map u_email (users (working (new_db m))))"
      using Cons.prems(4) u by simp_all
    ultimately show "ou_email u \<noteq> None
       \<and> ou_username u \<notin> set (map u_username (users (working (new_db ?m1))))
       \<and> ou_email u \<notin> set (map u_email (users (working (new_db ?m1))))"
      using row(1,2,3) by simp
  qed
  from Cons.IH[OF row(4) d r, of "pc + 1"] show ?case
    using row by auto
qed

lemma migrate_users_fresh:
  assumes np: "nothing_pending (new_db m)" and e: "users (working (new_db m)) = []"
    and d: "distinct (map ou_username (old_users old_db))" "distinct (map ou_email (old_users old_db))"
    and em: "\<forall>u \<in> set (old_users old_db). ou_email u \<noteq> None"
  shows "committed (new_db (migrate_users_and_addresses env old_db m))
           = working (new_db (migrate_users_and_addresses env old_db m))"
    and "nothing_pending (new_db (migrate_users_and_addresses env old_db m))"
    and "set (map ou_username (old_users old_db))
           \<subseteq> set (map u_username (users (committed (new_db (migrate_users_and_addresses env old_db m)))))"
    and "product_categories (working (new_db (migrate_users_and_addresses env old_db m)))
           = product_categories (working (new_db m))"
    and "seq_product_categories (new_db (migrate_users_and_addresses env old_db m))
           = seq_product_categories (new_db m)"
proof -
  let ?l = "users_loop env 0 m (old_users old_db)"
  have h: "\<forall>u \<in> set (old_users old_db). ou_email u \<noteq> None
       \<and> ou_username u \<notin> set (map u_username (users (working (new_db m))))
       \<and> ou_email u \<notin> set (map u_email (users (working (new_db m))))"
    using em e by simp
  from users_loop_fresh[OF nothing_pending_valid[OF np] d h, of env 0]
  have l: "pending_valid (new_db ?l)"
    "set (map ou_username (old_users old_db)) \<subseteq> set (map u_username (users (working (new_db ?l))))"
    "product_categories (working (new_db ?l)) = product_categories (working (new_db m))"
    "seq_product_categories (new_db ?l) = seq_product_categories (new_db m)"
    by auto
  obtain s' where s': "commit (new_db ?l) = Inr s'" "users (working s') = users (working (new_db ?l))"
      "product_categories (working s') = product_categories (working (new_db ?l))"
      "committed s' = working s'" "nothing_pending s'"
      "seq_product_categories s' = seq_product_categories (new_db ?l)"
    using commit_valid[OF l(1)] by blast
  have r: "new_db (migrate_users_and_addresses env old_db m) = s'"
    using s'(1) by (simp add: migrate_users_and_addresses_def commit_or_rollback_def)
  show "committed (new_db (migrate_users_and_addresses env old_db m))
           = working (new_db (migrate_users_and_addresses env old_db m))"
    using r s' by simp
  show "nothing_pending (new_db (migrate_users_and_addresses env old_db m))" using r s' by simp
  show "set (map ou_username (old_users old_db))
           \<subseteq> set (map u_username (users (committed (new_db (migrate_users_and_addresses env old_db m)))))"
    using r s' l by simp
  show "product_categories (working (new_db (migrate_users_and_addresses env old_db m)))
           = product_categories (working (new_db m))" using r s' l by simp
  show "seq_product_categories (new_db (migrate_users_and_addresses env old_db m))
           = seq_product_categories (new_db m)" using r s' l by simp
qed

lemma pos_ids_rollback: "pos_ids s \<Longrightarrow> pos_ids (rollback s)"
  by (simp add: pos_ids_def rollback_def)

lemma pos_ids_commit: "pos_ids s \<Longrightarrow> pos_ids (s\<lparr>committed := working s\<rparr>)"
  by (simp add: pos_ids_def)

lemma pos_ids_add_flush_category:
  "pos_ids s \<Longrightarrow> nothing_pending s \<Longrightarrow> add_flush_category s c = Inr (s1, row) \<Longrightarrow> pos_ids s1"
  by (auto simp: add_flush_category_def insert_category_def Let_def flush_def nothing_pending_def
      pos_ids_def split: if_splits sum.splits)

lemma pos_ids_add_flush_product:
  "pos_ids s \<Longrightarrow> nothing_pending s \<Longrightarrow> add_flush_product s p = Inr (s1, row) \<Longrightarrow> pos_ids s1"
  by (auto simp: add_flush_product_def insert_product_def Let_def flush_def nothing_pending_def
      pos_ids_def split: if_splits sum.splits)

lemma users_add_flush_category:
  "nothing_pending s \<Longrightarrow> add_flush_category s c = Inr (s1, row) \<Longrightarrow>
     users (working s1) = users (working s) \<and> users (committed s1) = users (committed s)"
  by (auto simp: add_flush_category_def insert_category_def Let_def flush_def nothing_pending_def
      split: if_splits sum.splits)

lemma create_category_pos:
  assumes np: "nothing_pending (new_db m)"
  shows "(pos_ids (new_db m) \<longrightarrow> pos_ids (new_db (create_category m raw n)))
       \<and> (users (working (new_db m)) = [] \<and> users (committed (new_db m)) = [] \<longrightarrow>
            users (working (new_db (create_category m raw n))) = []
          \<and> users (committed (new_db (create_category m raw n))) = [])"
proof (cases "category_by_name (new_db m) n")
  case (Some c)
  then show ?thesis by (simp add: create_category_def)
next
  case None
  show ?thesis
  proof (cases "add_flush_category (new_db m)
                 \<lparr>c_id = 0, c_name = n, c_description = Some (category_description n)\<rparr>")
    case (Inl e)
    then have "new_db (create_category m raw n) = rollback (new_db m)" using None
      by (simp add: create_category_def Let_def split: option.split)
    then show ?thesis using pos_ids_rollback[of "new_db m"] by (simp add: rollback_def)
  next
    case (Inr r)
    obtain s1 row where r: "r = (s1, row)" by (cases r)
    show ?thesis using None Inr r pos_ids_add_flush_category[OF _ np Inr[unfolded r]]
      users_add_flush_category[OF np Inr[unfolded r]]
      by (simp add: create_category_def)
  qed
qed

lemma category_iteration_pos:
  assumes inv: "cat_inv m"
  shows "(pos_ids (new_db m) \<longrightarrow> pos_ids (new_db (snd (category_iteration pc m x))))
       \<and> (users (working (new_db m)) = [] \<and> users (committed (new_db m)) = [] \<longrightarrow>
            users (working (new_db (snd (category_iteration pc m x)))) = []
          \<and> users (committed (new_db (snd (category_iteration pc m x)))) = [])"
proof (cases x)
  case None
  then show ?thesis by (simp add: category_iteration_def)
next
  case (Some raw)
  have np: "nothing_pending (new_db m)" using inv by (simp add: cat_inv_def)
  show ?thesis
  proof (cases "raw = [] \<or> canon raw \<in> dom (old_category_name_to_new_category_id_map m)")
    case True
    then show ?thesis using Some
      by (auto simp: category_iteration_def Let_def normalize_nonempty)
  next
    case False
    then have fresh: "old_category_name_to_new_category_id_map m (canon raw) = None" by auto
    let ?m1 = "create_category m raw (canon raw)"
    have inv1: "cat_inv ?m1" using create_category_inv[OF inv fresh] by simp
    then have np1: "nothing_pending (new_db ?m1)" by (simp add: cat_inv_def)
    have it: "snd (category_iteration pc m x) =
        (if (pc + 1) mod BATCH_SIZE = 0 then commit_or_rollback ?m1 else ?m1)"
      using False Some by (auto simp: category_iteration_def Let_def normalize_nonempty)
    show ?thesis using create_category_pos[OF np, of raw "canon raw"]
      by (auto simp: it commit_or_rollback_nothing_pending[OF np1] pos_ids_commit)
  qed
qed

lemma categories_loop_pos:
  "cat_inv m \<Longrightarrow>
     (pos_ids (new_db m) \<longrightarrow> pos_ids (new_db (categories_loop pc m names)))
   \<and> (users (working (new_db m)) = [] \<and> users (committed (new_db m)) = [] \<longrightarrow>
        users (working (new_db (categories_loop pc m names))) = []
      \<and> users (committed (new_db (categories_loop pc m names))) = [])"
proof (induction names arbitrary: pc m)
  case Nil
  then show ?case by simp
next
  case (Cons x names)
  obtain pc' m' where it: "category_iteration pc m x = (pc', m')"
    by (cases "category_iteration pc m x")
  have inv': "cat_inv m'" using category_iteration_inv[OF Cons.prems, of pc x] it by simp
  show ?case using category_iteration_pos[OF Cons.prems, of pc x] Cons.IH[OF inv', of pc'] it
    by simp
qed

text \<open>The categories stage when every legacy name already has its row.\<close>

lemma create_category_existing:
  "n \<in> names_of m \<Longrightarrow> new_db (create_category m raw n) = new_db m"
proof -
  assume "n \<in> names_of m"
  then have "category_by_name (new_db m) n \<noteq> None"
    by (auto simp: names_of_def category_by_name_def find_None_iff)
  then obtain c where "category_by_name (new_db m) n = Some c" by auto
  then show ?thesis by (simp add: create_category_def)
qed

lemma category_iteration_existing:
  assumes np: "nothing_pending (new_db m)" and eq: "working (new_db m) = committed (new_db m)"
    and ex: "\<forall>raw. x = Some raw \<and> raw \<noteq> [] \<longrightarrow> canon raw \<in> names_of m"
  shows "new_db (snd (category_iteration pc m x)) = new_db m"
proof (cases x)
  case None
  then show ?thesis by (simp add: category_iteration_def)
next
  case (Some raw)
  show ?thesis
  proof (cases "raw = [] \<or> canon raw \<in> dom (old_category_name_to_new_category_id_map m)")
    case True
    then show ?thesis using Some
      by (auto simp: category_iteration_def Let_def normalize_nonempty)
  next
    case False
    let ?m1 = "create_category m raw (canon raw)"
    have db: "new_db ?m1 = new_db m" using ex Some False create_category_existing by simp
    have it: "snd (category_iteration pc m x) =
        (if (pc + 1) mod BATCH_SIZE = 0 then commit_or_rollback ?m1 else ?m1)"
      using False Some by (auto simp: category_iteration_def Let_def normalize_nonempty)
    have "(new_db m)\<lparr>committed := working (new_db m)\<rparr> = new_db m" using eq by simp
    then show ?thesis using np db
      by (simp add: it commit_or_rollback_nothing_pending)
  qed
qed

lemma categories_loop_existing:
  "nothing_pending (new_db m) \<Longrightarrow> working (new_db m) = committed (new_db m) \<Longrightarrow>
   \<forall>raw. Some raw \<in> set names \<and> raw \<noteq> [] \<longrightarrow> canon raw \<in> names_of m \<Longrightarrow>
     new_db (categories_loop pc m names) = new_db m"
proof (induction names arbitrary: pc m)
  case Nil
  then show ?case by simp
next
  case (Cons x names)
  obtain pc' m' where it: "category_iteration pc m x = (pc', m')"
    by (cases "category_iteration pc m x")
  have db: "new_db m' = new_db m"
    using category_iteration_existing[OF Cons.prems(1,2), of x pc] Cons.prems(3) it by simp
  have "new_db (categories_loop pc' m' names) = new_db m'"
    using Cons.prems by (intro Cons.IH) (simp_all add: db names_of_def)
  then show ?case using it db by simp
qed

lemma migrate_categories_existing:
  assumes "nothing_pending (new_db m)" "working (new_db m) = committed (new_db m)"
   "\<forall>raw. Some raw \<in> set names \<and> raw \<noteq> [] \<longrightarrow> canon raw \<in> names_of m"
  shows "new_db (migrate_categories_from names m) = new_db m"
proof -
  have db: "new_db (categories_loop 0 m names) = new_db m"
    using categories_loop_existing[OF assms] .
  have "(new_db m)\<lparr>committed := working (new_db m)\<rparr> = new_db m" using assms(2) by simp
  then show ?thesis using assms(1) db
    by (simp add: migrate_categories_from_def commit_or_rollback_nothing_pending)
qed

lemma pos_ids_logged [simp]: "pos_ids (new_db (logged m e)) = pos_ids (new_db m)"
  by simp

lemma resolve_category_pos:
  assumes np: "nothing_pending (new_db m)" and pos: "pos_ids (new_db m)"
  shows "pos_ids (new_db (fst (resolve_category m old_product)))"
proof (cases "falsy_id (old_category_name_to_new_category_id_map m
        (normalize_category_name (op_category_name_redundant old_product)))")
  case False
  then show ?thesis using pos by (simp add: resolve_category_resolved)
next
  case True
  show ?thesis
  proof (cases "old_category_name_to_new_category_id_map m ''Unknown''")
    case (Some v)
    then show ?thesis using True pos by (simp add: resolve_category_def Let_def)
  next
    case None
    show ?thesis
    proof (cases "add_flush_category (new_db m)
                       \<lparr>c_id = 0, c_name = ''Unknown'',
                        c_description = Some default_category_description\<rparr>")
      case (Inl e)
      then show ?thesis using True None pos_ids_rollback[OF pos]
        by (simp add: resolve_category_def Let_def)
    next
      case (Inr r)
      obtain s1 row where r: "r = (s1, row)" by (cases r)
      have p1: "pos_ids s1" using pos_ids_add_flush_category[OF pos np Inr[unfolded r]] .
      have np1: "nothing_pending s1" using add_flush_category_np[OF np Inr[unfolded r]] .
      show ?thesis using True None Inr r pos_ids_commit[OF p1]
        by (simp add: resolve_category_def Let_def commit_nothing_pending[OF np1])
    qed
  qed
qed

lemma insert_product_part_pos:
  assumes np: "nothing_pending (new_db m1)" and pos: "pos_ids (new_db m1)"
  shows "pos_ids (new_db (insert_product_part env pc m1 old_product new_product))"
proof (cases "add_flush_product (new_db m1) new_product")
  case (Inl e)
  then show ?thesis using pos_ids_rollback[OF pos]
    by (simp add: insert_product_part_def product_except_db)
next
  case (Inr r)
  obtain s1 row where r: "r = (s1, row)" by (cases r)
  have p1: "pos_ids s1" using pos_ids_add_flush_product[OF pos np Inr[unfolded r]] .
  have np1: "nothing_pending s1" using add_flush_product_np[OF np Inr[unfolded r]] .
  show ?thesis using Inr r p1 pos_ids_commit[OF p1]
    by (simp add: insert_product_part_def Let_def map_product_def commit_nothing_pending[OF np1])
qed

lemma product_iteration_pos:
  assumes inv: "cat_inv m" and st: "settled product_categories (new_db m)"
    and pos: "pos_ids (new_db m)"
  shows "pos_ids (new_db (product_iteration env pc m old_product))"
proof -
  obtain m0 new_product where m0: "new_db m0 = new_db m"
      "old_category_name_to_new_category_id_map m0 = old_category_name_to_new_category_id_map m"
      and it: "product_iteration env pc m old_product =
          (case resolve_category m0 old_product of
             (m1, None) \<Rightarrow> m1
           | (m1, Some cid) \<Rightarrow> insert_product_part env pc m1 old_product (new_product cid))"
    using product_iteration_parts by blast
  have inv0: "cat_inv m0" using inv m0 by (simp add: cat_inv_def category_map_ok_same[of m0 m])
  have st0: "settled product_categories (new_db m0)" using st m0 by simp
  have np0: "nothing_pending (new_db m0)" using inv0 by (simp add: cat_inv_def)
  obtain m1 r where res: "resolve_category m0 old_product = (m1, r)"
    by (cases "resolve_category m0 old_product")
  have p1: "pos_ids (new_db m1)"
    using resolve_category_pos[OF np0, of old_product] pos m0 res by simp
  have "cat_inv m1" using resolve_category_inv[OF inv0 st0, of old_product] res by simp
  then have np1: "nothing_pending (new_db m1)" by (simp add: cat_inv_def)
  show ?thesis using p1 insert_product_part_pos[OF np1 p1] res
    by (simp add: it split: option.split)
qed

lemma products_loop_pos:
  "cat_inv m \<Longrightarrow> settled product_categories (new_db m) \<Longrightarrow> pos_ids (new_db m) \<Longrightarrow>
     pos_ids (new_db (products_loop env pc m ps))"
proof (induction ps arbitrary: pc m)
  case Nil
  then show ?case by simp
next
  case (Cons p ps)
  let ?m1 = "product_iteration env (pc + 1) m p"
  have i: "cat_inv ?m1" "settled product_categories (new_db ?m1)"
    using product_iteration_inv[OF Cons.prems(1,2), of env "pc + 1" p] by simp_all
  have "pos_ids (new_db ?m1)" using product_iteration_pos[OF Cons.prems] .
  from Cons.IH[OF i this] show ?case by simp
qed

lemma migrate_products_pos:
  assumes "cat_inv m" "settled product_categories (new_db m)" "pos_ids (new_db m)"
  shows "pos_ids (new_db (migrate_products env old_db m))"
proof -
  let ?l = "products_loop env 0 m (old_products old_db)"
  have "cat_inv ?l" using products_loop_inv[OF assms(1,2)] by simp
  then have np: "nothing_pending (new_db ?l)" by (simp add: cat_inv_def)
  have "pos_ids (new_db ?l)" using products_loop_pos[OF assms] .
  then show ?thesis
    by (simp add: migrate_products_def commit_or_rollback_nothing_pending[OF np] pos_ids_commit)
qed

text \<open>What the products stage leaves in the category table.\<close>

lemma migrate_products_names:
  assumes inv: "cat_inv m" and st: "settled product_categories (new_db m)"
  shows "names_of m \<subseteq> set (map c_name (product_categories
            (committed (new_db (migrate_products env old_db m)))))"
proof -
  let ?l = "products_loop env 0 m (old_products old_db)"
  have l: "cat_inv ?l" "names_of m \<subseteq> names_of ?l" using products_loop_inv[OF inv st] by simp_all
  then have np: "nothing_pending (new_db ?l)" by (simp add: cat_inv_def)
  show ?thesis using l(2)
    by (simp add: migrate_products_def commit_or_rollback_nothing_pending[OF np] names_of_def)
qed

lemma commit_or_rollback_map [simp]:
  "old_category_name_to_new_category_id_map (commit_or_rollback m)
     = old_category_name_to_new_category_id_map m"
  by (simp add: commit_or_rollback_def split: sum.split)

lemma migrate_users_map [simp]:
  "old_category_name_to_new_category_id_map (migrate_users_and_addresses env old_db m)
     = old_category_name_to_new_category_id_map m"
  by (simp add: migrate_users_and_addresses_def)

lemma migrate_categories_post:
  assumes e: "old_category_name_to_new_category_id_map m = Map.empty"
    and np: "nothing_pending (new_db m)"
  shows "cat_inv (migrate_categories_from names m)"
    and "working (new_db (migrate_categories_from names m))
           = committed (new_db (migrate_categories_from names m))"
    and "pos_ids (new_db m) \<Longrightarrow> pos_ids (new_db (migrate_categories_from names m))"
    and "users (working (new_db m)) = [] \<Longrightarrow> users (committed (new_db m)) = [] \<Longrightarrow>
           users (working (new_db (migrate_categories_from names m))) = []"
    and "Some raw \<in> set names \<Longrightarrow> raw \<noteq> [] \<Longrightarrow>
           old_category_name_to_new_category_id_map (migrate_categories_from names m) (canon raw) \<noteq> None"
proof -
  let ?l = "categories_loop 0 m names"
  have inv: "cat_inv m" using start_inv[OF e np] .
  note l = categories_loop_inv[OF inv, of 0 names]
  have linv: "cat_inv ?l" using l by simp
  then have lnp: "nothing_pending (new_db ?l)" by (simp add: cat_inv_def)
  note c = cat_inv_commit[OF linv]
  note p = categories_loop_pos[OF inv, of 0 names]
  show "cat_inv (migrate_categories_from names m)" using c(1) by (simp add: migrate_categories_from_def)
  show "working (new_db (migrate_categories_from names m))
           = committed (new_db (migrate_categories_from names m))"
    using c(3,4) by (simp add: migrate_categories_from_def)
  show "pos_ids (new_db (migrate_categories_from names m))" if "pos_ids (new_db m)"
    using that p pos_ids_commit[of "new_db ?l"]
    by (simp add: migrate_categories_from_def commit_or_rollback_nothing_pending[OF lnp])
  show "users (working (new_db (migrate_categories_from names m))) = []"
    if "users (working (new_db m)) = []" "users (committed (new_db m)) = []"
    using that p c(4) by (simp add: migrate_categories_from_def)
  show "old_category_name_to_new_category_id_map (migrate_categories_from names m) (canon raw) \<noteq> None"
    if "Some raw \<in> set names" "raw \<noteq> []"
    using that l by (simp add: migrate_categories_from_def)
qed

lemma mapped_not_falsy:
  assumes "category_map_ok m" "\<forall>c \<in> set (product_categories (working (new_db m))). c_id c \<noteq> 0"
    "old_category_name_to_new_category_id_map m k \<noteq> None"
  shows "\<not> falsy_id (old_category_name_to_new_category_id_map m k)"
proof -
  obtain v where v: "old_category_name_to_new_category_id_map m k = Some v" using assms(3) by auto
  then obtain c where "c \<in> set (product_categories (working (new_db m)))" "c_id c = v"
    using assms(1) unfolding category_map_ok_def by blast
  then have "v \<noteq> 0" using assms(2) by auto
  then show ?thesis using v by (simp add: falsy_id_def)
qed

lemma migrate_products_post:
  assumes inv: "cat_inv m" and st: "settled product_categories (new_db m)"
  shows "committed (new_db (migrate_products env old_db m))
           = working (new_db (migrate_products env old_db m))"
    and "nothing_pending (new_db (migrate_products env old_db m))"
proof -
  let ?l = "products_loop env 0 m (old_products old_db)"
  have "cat_inv ?l" using products_loop_inv[OF inv st] by simp
  then have np: "nothing_pending (new_db ?l)" by (simp add: cat_inv_def)
  note c = commit_or_rollback_settled[OF np]
  show "committed (new_db (migrate_products env old_db m))
           = working (new_db (migrate_products env old_db m))"
    using c(1,2) by (simp add: migrate_products_def)
  show "nothing_pending (new_db (migrate_products env old_db m))"
    using c(3) by (simp add: migrate_products_def)
qed

lemma migrate_products_categories_kept:
  assumes st: "settled product_categories (new_db m)"
    and c: "''Unknown'' \<in> set (map c_name (product_categories (working (new_db m))))
          \<or> (\<forall>p \<in> set (old_products old_db).
               \<not> falsy_id (old_category_name_to_new_category_id_map m
                   (normalize_category_name (op_category_name_redundant p))))"
  shows "keeps product_categories (new_db m) (new_db (migrate_products env old_db m))"
proof -
  have k: "keeps product_categories (new_db m) (new_db (products_loop env 0 m (old_products old_db)))"
    using c products_loop_unknown_exists[OF st] products_loop_resolved[OF st] by blast
  have i: "\<And>w x. product_categories (w\<lparr>order_items := x\<rparr>) = product_categories w" by simp
  from keeps_trans[OF k keeps_commit_or_rollback[OF i settled_keeps[OF st k]]]
  show ?thesis by (simp add: migrate_products_def)
qed

lemma falsy_str_cases: "\<not> falsy_str x \<Longrightarrow> \<exists>raw. x = Some raw \<and> raw \<noteq> []"
  by (cases x) (simp_all add: falsy_str_def)

lemma first_run_post:
  assumes d: "distinct (map ou_username (old_users old_db))" "distinct (map ou_email (old_users old_db))"
    and em: "\<forall>u \<in> set (old_users old_db). ou_email u \<noteq> None"
  shows "set (map ou_username (old_users old_db))
           \<subseteq> set (map u_username (users (committed (new_db (main_migration_process env old_db fresh_session)))))"
    and "\<forall>raw. Some raw \<in> set (distinct_categories old_db) \<and> raw \<noteq> [] \<longrightarrow>
           canon raw \<in> set (map c_name (product_categories
               (committed (new_db (main_migration_process env old_db fresh_session)))))"
    and "(\<exists>p \<in> set (old_products old_db). falsy_str (op_category_name_redundant p)) \<longrightarrow>
           ''Unknown'' \<in> set (map c_name (product_categories
               (committed (new_db (main_migration_process env old_db fresh_session)))))"
    and "\<forall>c \<in> set (product_categories
               (committed (new_db (main_migration_process env old_db fresh_session)))). c_id c \<noteq> 0"
proof -
  let ?M = old_category_name_to_new_category_id_map
  define m0 where "m0 = start_migration fresh_session"
  define mc where "mc = migrate_product_categories old_db m0"
  define mu where "mu = migrate_users_and_addresses env old_db mc"
  define mp where "mp = migrate_products env old_db mu"
  define mo where "mo = migrate_orders_and_items env old_db mp"
  have run: "main_migration_process env old_db fresh_session = mo"
    by (simp add: main_migration_process_def mo_def mp_def mu_def mc_def m0_def)
  have e0: "?M m0 = Map.empty" by (simp add: m0_def start_migration_def)
  have np0: "nothing_pending (new_db m0)"
    by (simp add: m0_def start_migration_def fresh_session_def nothing_pending_def)
  have pos0: "pos_ids (new_db m0)"
    by (simp add: m0_def start_migration_def fresh_session_def pos_ids_def empty_tables_def)
  have u0: "users (working (new_db m0)) = []" "users (committed (new_db m0)) = []"
    by (simp_all add: m0_def start_migration_def fresh_session_def empty_tables_def)
  note c = migrate_categories_post[OF e0 np0, where names = "distinct_categories old_db"]
  have c_inv: "cat_inv mc" and c_eq: "working (new_db mc) = committed (new_db mc)"
    and c_pos: "pos_ids (new_db mc)" and c_users: "users (working (new_db mc)) = []"
    using c(1,2) c(3)[OF pos0] c(4)[OF u0]
    by (simp_all add: mc_def migrate_product_categories_def)
  have c_map: "?M mc (canon raw) \<noteq> None" if "Some raw \<in> set (distinct_categories old_db)" "raw \<noteq> []" for raw
    using c(5)[OF that] by (simp add: mc_def migrate_product_categories_def)
  have c_np: "nothing_pending (new_db mc)" and c_ok: "category_map_ok mc"
    using c_inv by (simp_all add: cat_inv_def)
  have c_names: "canon raw \<in> names_of mc" if r: "Some raw \<in> set (distinct_categories old_db)" "raw \<noteq> []" for raw
  proof -
    have "?M mc (canon raw) \<noteq> None" using c_map[OF r] .
    then obtain v where "?M mc (canon raw) = Some v" by auto
    from category_map_ok_row[OF c_ok this] show ?thesis by (simp add: names_of_def canon_idem)
  qed
  note u = migrate_users_fresh[OF c_np c_users d em, of env]
  have u_eq: "committed (new_db mu) = working (new_db mu)" and u_np: "nothing_pending (new_db mu)"
    and u_names: "set (map ou_username (old_users old_db)) \<subseteq> set (map u_username (users (committed (new_db mu))))"
    and u_cats: "product_categories (working (new_db mu)) = product_categories (working (new_db mc))"
    and u_seq: "seq_product_categories (new_db mu) = seq_product_categories (new_db mc)"
    using u by (simp_all add: mu_def)
  have u_map: "?M mu = ?M mc" by (simp add: mu_def)
  have u_inv: "cat_inv mu"
    using u_np c_ok category_map_ok_same[OF u_map u_cats] by (simp add: cat_inv_def)
  have u_st: "settled product_categories (new_db mu)"
    using u_eq u_np by (simp add: settled_def nothing_pending_def)
  have u_st2: "settled ua (new_db mu)"
    using u_eq u_np by (simp add: settled_def nothing_pending_def)
  have u_pos: "pos_ids (new_db mu)"
    using c_pos u_cats u_seq u_eq by (simp add: pos_ids_def)
  have p_keep: "keeps ua (new_db mu) (new_db mp)"
    unfolding mp_def by (rule migrate_products_keeps[OF _ _ _ u_st2]) (simp_all add: ua_def)
  note pp = migrate_products_post[OF u_inv u_st, of env old_db]
  have p_eq: "committed (new_db mp) = working (new_db mp)" and p_np: "nothing_pending (new_db mp)"
    using pp by (simp_all add: mp_def)
  have p_pos: "pos_ids (new_db mp)" using migrate_products_pos[OF u_inv u_st u_pos] by (simp add: mp_def)
  have p_names: "names_of mu \<subseteq> set (map c_name (product_categories (committed (new_db mp))))"
    using migrate_products_names[OF u_inv u_st] by (simp add: mp_def)
  have p_unknown: "''Unknown'' \<in> set (map c_name (product_categories (committed (new_db mp))))"
    if "\<exists>p \<in> set (old_products old_db). falsy_str (op_category_name_redundant p)"
    using migrate_products_default_category[OF u_inv u_st that] by (simp add: mp_def)
  have p_st: "settled uac (new_db mp)"
    using p_eq p_np by (simp add: settled_def nothing_pending_def)
  have o_keep: "keeps uac (new_db mp) (new_db mo)"
    unfolding mo_def by (rule keeps_migrate_orders_and_items[OF _ _ p_st]) (simp_all add: uac_def)
  have o_users: "users (committed (new_db mo)) = users (committed (new_db mu))"
    using o_keep p_keep by (simp add: keeps_def uac_def ua_def)
  have o_cats: "product_categories (committed (new_db mo)) = product_categories (committed (new_db mp))"
    using o_keep by (simp add: keeps_def uac_def)
  show "set (map ou_username (old_users old_db))
           \<subseteq> set (map u_username (users (committed (new_db (main_migration_process env old_db fresh_session)))))"
    using u_names o_users by (simp add: run)
  show "\<forall>raw. Some raw \<in> set (distinct_categories old_db) \<and> raw \<noteq> [] \<longrightarrow>
           canon raw \<in> set (map c_name (product_categories
               (committed (new_db (main_migration_process env old_db fresh_session)))))"
  proof (intro allI impI)
    fix raw assume r: "Some raw \<in> set (distinct_categories old_db) \<and> raw \<noteq> []"
    then have "canon raw \<in> names_of mc" using c_names by simp
    then have "canon raw \<in> names_of mu" using u_cats by (simp add: names_of_def)
    then show "canon raw \<in> set (map c_name (product_categories
               (committed (new_db (main_migration_process env old_db fresh_session)))))"
      using p_names o_cats unfolding run by auto
  qed
  show "(\<exists>p \<in> set (old_products old_db). falsy_str (op_category_name_redundant p)) \<longrightarrow>
           ''Unknown'' \<in> set (map c_name (product_categories
               (committed (new_db (main_migration_process env old_db fresh_session)))))"
    using p_unknown o_cats unfolding run by simp
  show "\<forall>c \<in> set (product_categories
               (committed (new_db (main_migration_process env old_db fresh_session)))). c_id c \<noteq> 0"
    using p_pos o_cats unfolding run by (simp add: pos_ids_def)
qed

lemma second_run_post:
  assumes a: "set (map ou_username (old_users old_db)) \<subseteq> set (map u_username (users (committed s)))"
    and b: "\<forall>raw. Some raw \<in> set (distinct_categories old_db) \<and> raw \<noteq> [] \<longrightarrow>
           canon raw \<in> set (map c_name (product_categories (committed s)))"
    and c: "(\<exists>p \<in> set (old_products old_db). falsy_str (op_category_name_redundant p)) \<longrightarrow>
           ''Unknown'' \<in> set (map c_name (product_categories (committed s)))"
    and p: "\<forall>c \<in> set (product_categories (committed s)). c_id c \<noteq> 0"
  shows "uac (committed (new_db (main_migration_process env old_db (close s)))) = uac (committed s)"
proof -
  let ?M = old_category_name_to_new_category_id_map
  define m0 where "m0 = start_migration (close s)"
  define mc where "mc = migrate_product_categories old_db m0"
  define mu where "mu = migrate_users_and_addresses env old_db mc"
  define mp where "mp = migrate_products env old_db mu"
  define mo where "mo = migrate_orders_and_items env old_db mp"
  have run: "main_migration_process env old_db (close s) = mo"
    by (simp add: main_migration_process_def mo_def mp_def mu_def mc_def m0_def)
  have e0: "?M m0 = Map.empty" by (simp add: m0_def start_migration_def)
  have db0: "new_db m0 = rollback s" by (simp add: m0_def start_migration_def close_def)
  have np0: "nothing_pending (new_db m0)" by (simp add: db0)
  have w0: "working (new_db m0) = committed s" "committed (new_db m0) = committed s"
    by (simp_all add: db0 rollback_def)
  have ex0: "\<forall>raw. Some raw \<in> set (distinct_categories old_db) \<and> raw \<noteq> [] \<longrightarrow> canon raw \<in> names_of m0"
    using b by (simp add: names_of_def w0)
  have c_db: "new_db mc = new_db m0"
    using migrate_categories_existing[OF np0 _ ex0] w0
    by (simp add: mc_def migrate_product_categories_def)
  note cp = migrate_categories_post[OF e0 np0, where names = "distinct_categories old_db"]
  have c_inv: "cat_inv mc" using cp(1) by (simp add: mc_def migrate_product_categories_def)
  have c_map: "?M mc (canon raw) \<noteq> None" if "Some raw \<in> set (distinct_categories old_db)" "raw \<noteq> []" for raw
    using cp(5)[OF that] by (simp add: mc_def migrate_product_categories_def)
  have c_ok: "category_map_ok mc" using c_inv by (simp add: cat_inv_def)
  have c_w: "working (new_db mc) = committed s" "committed (new_db mc) = committed s"
    "nothing_pending (new_db mc)"
    using w0 np0 by (simp_all add: c_db)
  have taken: "\<forall>u \<in> set (old_users old_db).
      ou_username u \<in> set (map u_username (users (committed (new_db mc))))"
    using a c_w by auto
  note u = migrate_users_all_taken[OF taken _ c_w(3), of env]
  have u_w: "working (new_db mu) = committed s" "committed (new_db mu) = committed s"
    "nothing_pending (new_db mu)" "?M mu = ?M mc"
    using u c_w by (simp_all add: mu_def)
  have u_ok: "category_map_ok mu"
    using c_ok category_map_ok_same[OF u_w(4)] u_w(1) c_w(1) by simp
  have u_st: "settled product_categories (new_db mu)" "settled ua (new_db mu)"
    using u_w by (simp_all add: settled_def nothing_pending_def)
  have u_inv: "cat_inv mu" using u_ok u_w(3) by (simp add: cat_inv_def)
  have cond: "''Unknown'' \<in> set (map c_name (product_categories (working (new_db mu))))
          \<or> (\<forall>p \<in> set (old_products old_db).
               \<not> falsy_id (?M mu (normalize_category_name (op_category_name_redundant p))))"
  proof (cases "\<exists>p \<in> set (old_products old_db). falsy_str (op_category_name_redundant p)")
    case True
    then show ?thesis using c u_w(1) by simp
  next
    case False
    have "\<not> falsy_id (?M mu (normalize_category_name (op_category_name_redundant p)))"
      if pin: "p \<in> set (old_products old_db)" for p
    proof -
      have "\<not> falsy_str (op_category_name_redundant p)" using False pin by blast
      then obtain raw where raw: "op_category_name_redundant p = Some raw" "raw \<noteq> []"
        using falsy_str_cases by blast
      have "Some raw \<in> set (distinct_categories old_db)"
        using pin raw(1) by (force simp: distinct_categories_def)
      from c_map[OF this raw(2)] have "?M mu (canon raw) \<noteq> None" by (simp add: u_w(4))
      moreover have "\<forall>c \<in> set (product_categories (working (new_db mu))). c_id c \<noteq> 0"
        using p u_w(1) by simp
      ultimately have "\<not> falsy_id (?M mu (canon raw))" using mapped_not_falsy[OF u_ok] by blast
      then show ?thesis using raw by (simp add: normalize_nonempty)
    qed
    then show ?thesis by blast
  qed
  have p_keep1: "keeps product_categories (new_db mu) (new_db mp)"
    unfolding mp_def by (rule migrate_products_categories_kept[OF u_st(1) cond])
  have p_keep2: "keeps ua (new_db mu) (new_db mp)"
    unfolding mp_def by (rule migrate_products_keeps[OF _ _ _ u_st(2)]) (simp_all add: ua_def)
  note pp = migrate_products_post[OF u_inv u_st(1), of env old_db]
  have p_eq: "committed (new_db mp) = working (new_db mp)" and p_np: "nothing_pending (new_db mp)"
    using pp by (simp_all add: mp_def)
  have p_st: "settled uac (new_db mp)"
    using p_eq p_np by (simp add: settled_def nothing_pending_def)
  have o_keep: "keeps uac (new_db mp) (new_db mo)"
    unfolding mo_def by (rule keeps_migrate_orders_and_items[OF _ _ p_st]) (simp_all add: uac_def)
  have "uac (committed (new_db mo)) = uac (committed (new_db mu))"
    using o_keep p_keep1 p_keep2 by (simp add: keeps_def uac_def ua_def)
  then show ?thesis using u_w(2) by (simp add: run)
qed

lemma second_run_keeps:
  assumes d: "distinct (map ou_username (old_users old_db))" "distinct (map ou_email (old_users old_db))"
    and em: "\<forall>u \<in> set (old_users old_db). ou_email u \<noteq> None"
  shows "uac (committed (new_db (run_twice env1 env2 old_db fresh_session)))
       = uac (committed (new_db (main_migration_process env1 old_db fresh_session)))"
  unfolding run_twice_def
  by (rule second_run_post[OF first_run_post[OF d em]])




end
